(* ===== verification/CRS_Prelude.thy ===== *)
theory CRS_Prelude
  imports Main
begin

text \<open>
  Shared foundations of the development: how a run of a C++ function ends (normal return,
  exception, fatal stop), programs as state transformers with those outcomes, the rules
  that the automation uses for them, the contract of loops that keep the latest answer, the
  runs of a step relation, and the contract of two step relations that simulate each other.
\<close>

section \<open>Outcomes\<close>

text \<open>
  The exceptions that leave a SimCRS function. The first is the one the sources throw
  themselves, the next two are the classes that \<open>SIMCRS_Types.hpp\<close> declares, and
  \<open>ExternalException\<close> stands for whatever a component outside the repository throws
  (with its description).
\<close>

datatype exn =
    NonInitialisedServiceException string
  | BookingException
  | AvailabilityRetrievalException
  | ExternalException string

text \<open>
  A run that can not go on: a failed \<open>assert\<close> (assertions are compiled in), or a step
  to which C++ gives no meaning.
\<close>

datatype ub =
    Dangling        \<comment> \<open>access through, or delete of, a pointer to a dead object\<close>
  | Past_end        \<comment> \<open>an end iterator is dereferenced\<close>
  | Indeterminate   \<comment> \<open>a member that was never initialised is read\<close>
  | Empty_front     \<comment> \<open>front() of an empty list\<close>

datatype fault = AssertionFailure | Undefined ub

datatype 'a outcome = Ret 'a | Throw exn | Halt fault

type_synonym ('s, 'a) prog = "'s \<Rightarrow> 'a outcome \<times> 's"

named_theorems crs_prog "equations that run the sequencing combinators"
named_theorems keeps_intros "rules that build frame facts along the structure of a program"
named_theorems settles_intros "rules that build absence-of-fault facts along a program"

lemma empty_eq_set_option [simp]: "{} = set_option x \<longleftrightarrow> x = None"
  by (cases x) simp_all

lemma singleton_map_eq [simp]: "[a \<mapsto> x] = [a \<mapsto> y] \<longleftrightarrow> x = y"
  by (auto dest: map_upd_eqD1)

section \<open>Programs\<close>

definition ret :: "'a \<Rightarrow> ('s, 'a) prog" where
  "ret x = (\<lambda>s. (Ret x, s))"

definition raise :: "exn \<Rightarrow> ('s, 'a) prog" where
  "raise e = (\<lambda>s. (Throw e, s))"

definition halt :: "fault \<Rightarrow> ('s, 'a) prog" where
  "halt b = (\<lambda>s. (Halt b, s))"

definition bindM :: "('s, 'a) prog \<Rightarrow> ('a \<Rightarrow> ('s, 'b) prog) \<Rightarrow> ('s, 'b) prog" where
  "bindM m f = (\<lambda>s. case m s of
      (Ret x, t) \<Rightarrow> f x t
    | (Throw e, t) \<Rightarrow> (Throw e, t)
    | (Halt b, t) \<Rightarrow> (Halt b, t))"

definition seqM :: "('s, unit) prog \<Rightarrow> ('s, 'b) prog \<Rightarrow> ('s, 'b) prog" where
  "seqM m n = bindM m (\<lambda>_. n)"

definition getS :: "('s \<Rightarrow> 'a) \<Rightarrow> ('s, 'a) prog" where
  "getS g = (\<lambda>s. (Ret (g s), s))"

definition modS :: "('s \<Rightarrow> 's) \<Rightarrow> ('s, unit) prog" where
  "modS g = (\<lambda>s. (Ret (), g s))"

definition assertM :: "bool \<Rightarrow> ('s, unit) prog" where
  "assertM b = (if b then ret () else halt AssertionFailure)"

text \<open>
  The first three equations run a program on a state. Proofs that two programs are equal
  leave them out (\<open>simp del: run_simps\<close>), so that \<open>ret\<close> stays folded.
\<close>

lemma run_simps [simp, crs_prog]:
  "ret x s = (Ret x, s)"
  "raise e s = (Throw e, s)"
  "halt b s = (Halt b, s)"
  "getS g s = (Ret (g s), s)"
  "modS h s = (Ret (), h s)"
  by (simp_all add: ret_def raise_def halt_def getS_def modS_def)

lemma bindM_simps [simp, crs_prog]:
  "bindM (ret x) f = f x"
  "bindM (raise e) f = raise e"
  "bindM (halt b) f = halt b"
  "bindM (getS g) f s = f (g s) s"
  "bindM (modS h) k s = k () (h s)"
  by (simp_all add: bindM_def ret_def raise_def halt_def fun_eq_iff)

lemma bindM_ret_right [simp]: "bindM m ret = m"
  by (rule ext) (simp add: bindM_def ret_def split: prod.split outcome.split)

lemma bindM_assoc: "bindM (bindM m f) g = bindM m (\<lambda>x. bindM (f x) g)"
  by (rule ext) (simp add: bindM_def split: prod.split outcome.split)

lemma seqM_simps [simp, crs_prog]:
  "seqM (ret ()) n = n"
  "seqM (raise e) n = raise e"
  "seqM (halt b) n = halt b"
  "seqM (modS h) n s = n (h s)"
  by (simp_all add: seqM_def)

lemma seqM_assoc: "seqM (seqM a b) c = seqM a (seqM b c)"
  by (simp add: seqM_def bindM_assoc)

lemma assertM_simps [simp, crs_prog]:
  "assertM True = ret ()"
  "assertM False = halt AssertionFailure"
  by (simp_all add: assertM_def)

lemma bindM_cases:
  "bindM m f s = (case m s of
      (Ret x, t) \<Rightarrow> f x t
    | (Throw e, t) \<Rightarrow> (Throw e, t)
    | (Halt b, t) \<Rightarrow> (Halt b, t))"
  by (simp add: bindM_def)

lemma seqM_cases:
  "seqM m n s = (case m s of
      (Ret x, t) \<Rightarrow> n t
    | (Throw e, t) \<Rightarrow> (Throw e, t)
    | (Halt b, t) \<Rightarrow> (Halt b, t))"
  by (simp add: seqM_def bindM_def)

lemma bindM_Ret: "m s = (Ret x, t) \<Longrightarrow> bindM m f s = f x t"
  by (simp add: bindM_def)

lemma seqM_Ret: "m s = (Ret x, t) \<Longrightarrow> seqM m n s = n t"
  by (simp add: seqM_def bindM_def)

lemma bindM_eq_Ret_iff:
  "bindM m f s = (Ret y, u) \<longleftrightarrow> (\<exists>x t. m s = (Ret x, t) \<and> f x t = (Ret y, u))"
  by (auto simp: bindM_def split: prod.split outcome.split)

lemma seqM_eq_Ret_iff:
  "seqM m n s = (Ret y, u) \<longleftrightarrow> (\<exists>x t. m s = (Ret x, t) \<and> n t = (Ret y, u))"
  by (simp add: seqM_def bindM_eq_Ret_iff)

lemma assertM_Ret_iff [simp]: "assertM b s = (Ret x, t) \<longleftrightarrow> b \<and> t = s"
  by (auto simp: assertM_def)

text \<open>What is done when a block is left, by a return or by an exception.\<close>

definition finally_do :: "('s \<Rightarrow> 's) \<Rightarrow> ('s, 'a) prog \<Rightarrow> ('s, 'a) prog" where
  "finally_do f m = (\<lambda>s. case m s of
      (Ret x, t) \<Rightarrow> (Ret x, f t)
    | (Throw e, t) \<Rightarrow> (Throw e, f t)
    | (Halt b, t) \<Rightarrow> (Halt b, t))"

lemma finally_do_outcome [simp]: "fst (finally_do f m s) = fst (m s)"
  by (simp add: finally_do_def split: prod.split outcome.split)

lemma finally_do_Ret_iff [simp]:
  "finally_do f m s = (Ret x, t) \<longleftrightarrow> (\<exists>u. m s = (Ret x, u) \<and> t = f u)"
  by (auto simp: finally_do_def split: prod.split outcome.split)

lemma finally_do_ret [simp]: "finally_do f (ret x) = (\<lambda>s. (Ret x, f s))"
  by (simp add: finally_do_def fun_eq_iff)

lemma bindM_cong_Ret:
  "(\<And>x t. m s = (Ret x, t) \<Longrightarrow> f x t = g x t) \<Longrightarrow> bindM m f s = bindM m g s"
  by (auto simp: bindM_def split: prod.split outcome.split)

section \<open>Frame facts and absence of faults\<close>

text \<open>
  \<open>keeps g m\<close>: whatever way \<open>m\<close> ends, the part \<open>g\<close> of the state is as before.
  \<open>settles P m\<close>: from a state with \<open>P\<close>, the run of \<open>m\<close> does not stop on a fault and
  \<open>P\<close> holds again, whether it returned or threw.
\<close>

definition keeps :: "('s \<Rightarrow> 'k) \<Rightarrow> ('s, 'a) prog \<Rightarrow> bool" where
  "keeps g m \<longleftrightarrow> (\<forall>s. g (snd (m s)) = g s)"

definition is_halt :: "'a outcome \<Rightarrow> bool" where
  "is_halt r = (case r of Halt _ \<Rightarrow> True | _ \<Rightarrow> False)"

definition settles :: "('s \<Rightarrow> bool) \<Rightarrow> ('s, 'a) prog \<Rightarrow> bool" where
  "settles P m \<longleftrightarrow> (\<forall>s. P s \<longrightarrow> \<not> is_halt (fst (m s)) \<and> P (snd (m s)))"

lemma is_halt_simps [simp]:
  "\<not> is_halt (Ret x)" "\<not> is_halt (Throw e)" "is_halt (Halt b)"
  by (simp_all add: is_halt_def)

lemma keepsD: "keeps g m \<Longrightarrow> m s = (r, t) \<Longrightarrow> g t = g s"
  by (auto simp: keeps_def dest: spec [of _ s])

lemma keeps_snd: "keeps g m \<Longrightarrow> g (snd (m s)) = g s"
  by (simp add: keeps_def)

lemma keeps_ret [keeps_intros]: "keeps g (ret x)"
  by (simp add: keeps_def)

lemma keeps_raise [keeps_intros]: "keeps g (raise e)"
  by (simp add: keeps_def)

lemma keeps_halt [keeps_intros]: "keeps g (halt b)"
  by (simp add: keeps_def)

lemma keeps_getS [keeps_intros]: "keeps g (getS h)"
  by (simp add: keeps_def)

lemma keeps_assertM [keeps_intros]: "keeps g (assertM b)"
  by (simp add: keeps_def assertM_def)

lemma keeps_bindM [keeps_intros]:
  "keeps g m \<Longrightarrow> (\<And>x. keeps g (f x)) \<Longrightarrow> keeps g (bindM m f)"
  by (simp add: keeps_def bindM_def split: prod.split outcome.split) (metis snd_conv)

lemma keeps_seqM [keeps_intros]: "keeps g m \<Longrightarrow> keeps g n \<Longrightarrow> keeps g (seqM m n)"
  by (simp add: seqM_def keeps_bindM)

lemma keeps_finally_do:
  "keeps g m \<Longrightarrow> (\<And>s. g (f s) = g s) \<Longrightarrow> keeps g (finally_do f m)"
  by (simp add: keeps_def finally_do_def case_prod_beta split: outcome.split)

lemma keeps_if [keeps_intros]:
  "keeps g m \<Longrightarrow> keeps g n \<Longrightarrow> keeps g (if b then m else n)"
  by simp

lemma settlesD: "settles P m \<Longrightarrow> P s \<Longrightarrow> m s = (r, t) \<Longrightarrow> \<not> is_halt r \<and> P t"
  by (metis settles_def fst_conv snd_conv)

lemma settles_ret [settles_intros]: "settles P (ret x)"
  by (simp add: settles_def)

lemma settles_raise [settles_intros]: "settles P (raise e)"
  by (simp add: settles_def)

lemma settles_getS [settles_intros]: "settles P (getS h)"
  by (simp add: settles_def)

lemma settles_bindM [settles_intros]:
  "settles P m \<Longrightarrow> (\<And>x. settles P (f x)) \<Longrightarrow> settles P (bindM m f)"
  unfolding settles_def bindM_def
  by (auto split: prod.split outcome.split)

lemma settles_bindM_Ret:
  assumes "settles P m" and "\<And>s x t. P s \<Longrightarrow> m s = (Ret x, t) \<Longrightarrow> settles P (f x)"
  shows "settles P (bindM m f)"
  unfolding settles_def
proof (intro allI impI)
  fix s
  assume P: "P s"
  obtain r t where run: "m s = (r, t)" by (cases "m s")
  have "\<not> is_halt r \<and> P t" by (rule settlesD [OF assms(1) P run])
  with run assms(2) [OF P] show "\<not> is_halt (fst (bindM m f s)) \<and> P (snd (bindM m f s))"
    by (cases r) (auto simp: bindM_cases settles_def)
qed

lemma settles_seqM [settles_intros]: "settles P m \<Longrightarrow> settles P n \<Longrightarrow> settles P (seqM m n)"
  by (simp add: seqM_def settles_bindM)

lemma finally_do_run: "m s = (r, t) \<Longrightarrow> finally_do f m s = (r, if is_halt r then t else f t)"
  by (cases r) (simp_all add: finally_do_def)

section \<open>Running a request per element\<close>

fun mapM :: "('x \<Rightarrow> ('s, 'y) prog) \<Rightarrow> 'x list \<Rightarrow> ('s, 'y list) prog" where
  "mapM f [] = ret []"
| "mapM f (x # xs) = bindM (f x) (\<lambda>y. bindM (mapM f xs) (\<lambda>ys. ret (y # ys)))"

lemma mapM_append:
  "mapM f (xs @ ys) = bindM (mapM f xs) (\<lambda>us. bindM (mapM f ys) (\<lambda>vs. ret (us @ vs)))"
  by (induction xs) (simp_all add: bindM_assoc del: run_simps)

lemma mapM_length: "mapM f xs s = (Ret ys, t) \<Longrightarrow> length ys = length xs"
  by (induction xs arbitrary: ys s) (auto simp: bindM_eq_Ret_iff)

lemma keeps_mapM [keeps_intros]: "(\<And>x. keeps g (f x)) \<Longrightarrow> keeps g (mapM f xs)"
  by (induction xs) (auto intro!: keeps_intros)

lemma settles_mapM [settles_intros]: "(\<And>x. settles P (f x)) \<Longrightarrow> settles P (mapM f xs)"
  by (induction xs) (auto intro!: settles_intros)

text \<open>
  The contract of a loop that sends one request per element and keeps only the latest answer
  in a flag. Such a loop answers what the last request answered, and the initial flag when
  there is no request.
\<close>

locale latest_answer =
  fixes submit_one :: "'r \<Rightarrow> ('s, bool) prog"
    and loop :: "'r list \<Rightarrow> bool \<Rightarrow> ('s, bool) prog"
  assumes loop_Nil: "loop [] ok = ret ok"
    and loop_Cons: "loop (r # rs) ok = bindM (submit_one r) (loop rs)"
begin

lemma loop_latest: "loop rs ok = bindM (mapM submit_one rs) (\<lambda>bs. ret (last (ok # bs)))"
proof (induction rs arbitrary: ok)
  case Nil
  then show ?case by (simp add: loop_Nil del: run_simps)
next
  case (Cons r rs)
  have "bindM (mapM submit_one rs) (\<lambda>bs. ret (last (b # bs)))
      = bindM (mapM submit_one rs) (\<lambda>bs. ret (last (ok # b # bs)))" for b
    by simp
  then show ?case by (simp add: loop_Cons Cons.IH [abs_def] bindM_assoc del: run_simps)
qed

lemma loop_no_request: "loop [] ok = ret ok"
  by (rule loop_Nil)

lemma loop_snoc: "loop (rs @ [r]) ok = bindM (mapM submit_one rs) (\<lambda>_. submit_one r)"
  by (simp add: loop_latest mapM_append bindM_assoc del: run_simps)

end

section \<open>Runs of a step relation\<close>

inductive runs :: "('e \<Rightarrow> 's \<Rightarrow> 's \<Rightarrow> bool) \<Rightarrow> 'e list \<Rightarrow> 's \<Rightarrow> 's \<Rightarrow> bool" for step where
  runs_Nil: "runs step [] u u"
| runs_snoc: "runs step es u v \<Longrightarrow> step e v w \<Longrightarrow> runs step (es @ [e]) u w"

inductive_cases runs_NilE: "runs step [] u v"
inductive_cases runs_snocE: "runs step (es @ [e]) u v"

lemma runs_one: "step e u v \<Longrightarrow> runs step [e] u v"
  using runs_snoc [OF runs_Nil] by fastforce

lemma runs_append:
  assumes "runs step es v w" "runs step ds u v"
  shows "runs step (ds @ es) u w"
  using assms
proof (induction rule: runs.induct)
  case (runs_snoc es v x e w)
  then show ?case using runs.runs_snoc [of step "ds @ es"] by simp
qed simp

text \<open>
  Two step relations with the same labels that do the same up to an abstraction of the states
  of the first, in its states that satisfy an invariant. They then have the same runs.
\<close>

locale bisimulation =
  fixes step :: "'e \<Rightarrow> 's \<Rightarrow> 's \<Rightarrow> bool" and spec :: "'e \<Rightarrow> 'a \<Rightarrow> 'a \<Rightarrow> bool"
    and inv :: "'s \<Rightarrow> bool" and view :: "'s \<Rightarrow> 'a"
  assumes inv_step: "inv u \<Longrightarrow> step e u v \<Longrightarrow> inv v"
    and forward: "inv u \<Longrightarrow> step e u v \<Longrightarrow> spec e (view u) (view v)"
    and backward: "inv u \<Longrightarrow> spec e (view u) b \<Longrightarrow> \<exists>v. step e u v \<and> view v = b"
begin

lemma runs_forward:
  assumes "runs step es u v" "inv u"
  shows "inv v \<and> runs spec es (view u) (view v)"
  using assms
  by (induction rule: runs.induct) (auto intro: runs.intros inv_step forward)

lemma runs_backward:
  assumes "runs spec es a b" "inv u" "view u = a"
  shows "\<exists>v. runs step es u v \<and> view v = b"
  using assms
proof (induction rule: runs.induct)
  case (runs_Nil a)
  then show ?case using runs.runs_Nil by fastforce
next
  case (runs_snoc es a b e c)
  then obtain v where v: "runs step es u v" "view v = b" by blast
  have "inv v" using runs_forward [OF v(1) runs_snoc.prems(1)] by simp
  from backward [OF this, of e c] runs_snoc.hyps(2) v(2) obtain w
    where "step e v w" "view w = c" by blast
  with runs.runs_snoc [OF v(1)] show ?case by blast
qed

lemma same_runs:
  assumes "inv u"
  shows "(\<exists>v. runs step es u v \<and> view v = b) \<longleftrightarrow> runs spec es (view u) b"
  using runs_forward [OF _ assms] runs_backward [OF _ assms refl] by metis

end

end
