(* ===== verification/CRS_Context.thy ===== *)
theory CRS_Context
  imports CRS_Prelude
begin

text \<open>
  The class \<open>SIMCRS_ServiceContext\<close> (\<open>simcrs/service/SIMCRS_ServiceContext.hpp\<close> and
  \<open>.cpp\<close>): the handlers of the other services, held by shared pointers, the two
  ownership flags and the CRS code. A service object outside the repository is known by an
  identity of type \<open>svc\<close>; a shared pointer is \<open>None\<close> (NULL) or the identity it points to.
  The main constructor leaves \<open>_ownStdairService\<close> uninitialised, so that flag is an option:
  \<open>None\<close> is an indeterminate value, and reading it has no meaning in C++.
\<close>

section \<open>State\<close>

type_synonym svc = nat
type_synonym sptr = "svc option"
type_synonym CRSCode_T = string

record service_context =
  stdairService :: sptr
  ownStdairService :: "bool option"
  sevmgrService :: sptr
  ownSEVMGRService :: bool
  airtspService :: sptr
  airinvService :: sptr
  simfqtService :: sptr
  CRSCode :: CRSCode_T

definition DEFAULT_CRS_CODE :: string where
  "DEFAULT_CRS_CODE = ''1S''"

section \<open>Constructors\<close>

definition ServiceContext_default :: service_context where
  "ServiceContext_default = \<lparr>stdairService = None, ownStdairService = Some False,
     sevmgrService = None, ownSEVMGRService = True, airtspService = None,
     airinvService = None, simfqtService = None, CRSCode = DEFAULT_CRS_CODE\<rparr>"

definition ServiceContext_copy :: "service_context \<Rightarrow> service_context" where
  "ServiceContext_copy other = \<lparr>stdairService = None, ownStdairService = Some False,
     sevmgrService = None, ownSEVMGRService = True, airtspService = None,
     airinvService = None, simfqtService = None, CRSCode = []\<rparr>"

definition ServiceContext_make :: "CRSCode_T \<Rightarrow> service_context" where
  "ServiceContext_make iCRSCode = \<lparr>stdairService = None, ownStdairService = None,
     sevmgrService = None, ownSEVMGRService = True, airtspService = None,
     airinvService = None, simfqtService = None, CRSCode = iCRSCode\<rparr>"

section \<open>Getters\<close>

text \<open>A getter that dereferences a shared pointer asserts first that it is not NULL.\<close>

definition deref_sptr :: "sptr \<Rightarrow> ('s, svc) prog" where
  "deref_sptr p = (case p of None \<Rightarrow> halt AssertionFailure | Some x \<Rightarrow> ret x)"

definition getCRSCode :: "service_context \<Rightarrow> CRSCode_T" where
  "getCRSCode c = CRSCode c"

definition getSTDAIR_ServicePtr :: "service_context \<Rightarrow> sptr" where
  "getSTDAIR_ServicePtr c = stdairService c"

definition getSTDAIR_Service :: "service_context \<Rightarrow> ('s, svc) prog" where
  "getSTDAIR_Service c = deref_sptr (stdairService c)"

definition getOwnStdairServiceFlag :: "service_context \<Rightarrow> ('s, bool) prog" where
  "getOwnStdairServiceFlag c =
     (case ownStdairService c of None \<Rightarrow> halt (Undefined Indeterminate) | Some b \<Rightarrow> ret b)"

definition getSEVMGR_ServicePtr :: "service_context \<Rightarrow> sptr" where
  "getSEVMGR_ServicePtr c = sevmgrService c"

definition getSEVMGR_Service :: "service_context \<Rightarrow> ('s, svc) prog" where
  "getSEVMGR_Service c = deref_sptr (sevmgrService c)"

definition getOwnSEVMGRServiceFlag :: "service_context \<Rightarrow> bool" where
  "getOwnSEVMGRServiceFlag c = ownSEVMGRService c"

definition getAIRINV_Service :: "service_context \<Rightarrow> ('s, svc) prog" where
  "getAIRINV_Service c = deref_sptr (airinvService c)"

definition getAIRTSP_Service :: "service_context \<Rightarrow> ('s, svc) prog" where
  "getAIRTSP_Service c = deref_sptr (airtspService c)"

definition getSIMFQT_Service :: "service_context \<Rightarrow> ('s, svc) prog" where
  "getSIMFQT_Service c = deref_sptr (simfqtService c)"

section \<open>Setters\<close>

definition setCRSCode :: "CRSCode_T \<Rightarrow> service_context \<Rightarrow> service_context" where
  "setCRSCode iCRSCode c = c\<lparr>CRSCode := iCRSCode\<rparr>"

definition setSTDAIR_Service :: "sptr \<Rightarrow> bool \<Rightarrow> service_context \<Rightarrow> service_context" where
  "setSTDAIR_Service p iOwn c = c\<lparr>stdairService := p, ownStdairService := Some iOwn\<rparr>"

definition setSEVMGR_Service :: "sptr \<Rightarrow> bool \<Rightarrow> service_context \<Rightarrow> service_context" where
  "setSEVMGR_Service p iOwn c = c\<lparr>sevmgrService := p, ownSEVMGRService := iOwn\<rparr>"

definition setAIRINV_Service :: "sptr \<Rightarrow> service_context \<Rightarrow> service_context" where
  "setAIRINV_Service p c = c\<lparr>airinvService := p\<rparr>"

definition setAIRTSP_Service :: "sptr \<Rightarrow> service_context \<Rightarrow> service_context" where
  "setAIRTSP_Service p c = c\<lparr>airtspService := p\<rparr>"

definition setSIMFQT_Service :: "sptr \<Rightarrow> service_context \<Rightarrow> service_context" where
  "setSIMFQT_Service p c = c\<lparr>simfqtService := p\<rparr>"

section \<open>Display and reset\<close>

text \<open>A bool is inserted in a stream without \<open>boolalpha\<close>: it prints as 0 or 1.\<close>

definition show_bool :: "bool \<Rightarrow> string" where
  "show_bool b = (if b then ''1'' else ''0'')"

definition shortDisplay :: "service_context \<Rightarrow> ('s, string) prog" where
  "shortDisplay c = bindM (getOwnStdairServiceFlag c) (\<lambda>own.
     ret (''SIMCRS_ServiceContext ['' @ CRSCode c @ ''] - Owns StdAir service: ''
          @ show_bool own))"

definition display :: "service_context \<Rightarrow> ('s, string) prog" where
  "display c = shortDisplay c"

definition describe :: "service_context \<Rightarrow> ('s, string) prog" where
  "describe c = shortDisplay c"

text \<open>
  Giving up a shared pointer that is not NULL is \<open>release\<close> on the outside world: the object
  loses a reference, and the last one deletes it. \<open>reset()\<close> gives the five pointers up one
  after the other; the destructor has an empty body, and the members are destroyed in the
  reverse order of their declaration.
\<close>

definition drop_sptr :: "(svc \<Rightarrow> 'w \<Rightarrow> 'w) \<Rightarrow> sptr \<Rightarrow> 'w \<Rightarrow> 'w" where
  "drop_sptr release p w = (case p of None \<Rightarrow> w | Some x \<Rightarrow> release x w)"

definition reset ::
  "(svc \<Rightarrow> 'w \<Rightarrow> 'w) \<Rightarrow> service_context \<Rightarrow> 'w \<Rightarrow> service_context \<times> 'w" where
  "reset release c w =
     (let w = drop_sptr release (stdairService c) w; c = c\<lparr>stdairService := None\<rparr>;
          w = drop_sptr release (simfqtService c) w; c = c\<lparr>simfqtService := None\<rparr>;
          w = drop_sptr release (airtspService c) w; c = c\<lparr>airtspService := None\<rparr>;
          w = drop_sptr release (airinvService c) w; c = c\<lparr>airinvService := None\<rparr>;
          w = drop_sptr release (sevmgrService c) w; c = c\<lparr>sevmgrService := None\<rparr>
      in (c, w))"

definition ServiceContext_destroy ::
  "(svc \<Rightarrow> 'w \<Rightarrow> 'w) \<Rightarrow> service_context \<Rightarrow> 'w \<Rightarrow> 'w" where
  "ServiceContext_destroy release c w =
     (let w = drop_sptr release (simfqtService c) w;
          w = drop_sptr release (airinvService c) w;
          w = drop_sptr release (airtspService c) w;
          w = drop_sptr release (sevmgrService c) w
      in drop_sptr release (stdairService c) w)"

section \<open>References held by a context\<close>

text \<open>
  The shared pointers of a context in declaration order, and how many of them keep the
  service \<open>x\<close> alive: the share of the context in the reference count of \<open>x\<close>.
\<close>

definition context_slots :: "service_context \<Rightarrow> sptr list" where
  "context_slots c = [stdairService c, sevmgrService c, airtspService c, airinvService c,
                      simfqtService c]"

text \<open>The pointers that \<open>reset\<close> and the destructor give up, in their order.\<close>

definition reset_order :: "service_context \<Rightarrow> sptr list" where
  "reset_order c = [stdairService c, simfqtService c, airtspService c, airinvService c,
                    sevmgrService c]"

definition drop_all :: "(svc \<Rightarrow> 'w \<Rightarrow> 'w) \<Rightarrow> sptr list \<Rightarrow> 'w \<Rightarrow> 'w" where
  "drop_all release ps w = fold (drop_sptr release) ps w"

definition emptied :: "service_context \<Rightarrow> service_context" where
  "emptied c = c\<lparr>stdairService := None, sevmgrService := None, airtspService := None,
     airinvService := None, simfqtService := None\<rparr>"

definition context_refs :: "svc \<Rightarrow> service_context \<Rightarrow> nat" where
  "context_refs x c = length (filter (\<lambda>p. p = Some x) (context_slots c))"

text \<open>
  What the rest of the code relies on once a constructor of the service is through: every
  handler is there and the flag has a value. The SEvMgr pointer may be NULL, but only when
  SimCRS is to own that service.
\<close>

definition context_complete :: "service_context \<Rightarrow> bool" where
  "context_complete c \<longleftrightarrow> stdairService c \<noteq> None \<and> ownStdairService c \<noteq> None \<and>
     airtspService c \<noteq> None \<and> airinvService c \<noteq> None \<and> simfqtService c \<noteq> None \<and>
     (\<not> ownSEVMGRService c \<longrightarrow> sevmgrService c \<noteq> None)"

section \<open>Lemmas\<close>

lemma deref_sptr_simps [simp, crs_prog]:
  "deref_sptr None = halt AssertionFailure"
  "deref_sptr (Some x) = ret x"
  by (simp_all add: deref_sptr_def)

lemma getOwnStdair_simps [simp, crs_prog]:
  "ownStdairService c = Some b \<Longrightarrow> getOwnStdairServiceFlag c = ret b"
  "ownStdairService c = None \<Longrightarrow> getOwnStdairServiceFlag c = halt (Undefined Indeterminate)"
  by (simp_all add: getOwnStdairServiceFlag_def)

lemma keeps_deref [keeps_intros]: "keeps g (deref_sptr p)"
  by (cases p) (simp_all add: keeps_intros)

lemma keeps_ownStdair [keeps_intros]: "keeps g (getOwnStdairServiceFlag c)"
  by (cases "ownStdairService c") (simp_all add: keeps_intros)

lemma keeps_getters [keeps_intros]:
  "keeps g (getSTDAIR_Service c)" "keeps g (getSEVMGR_Service c)"
  "keeps g (getAIRINV_Service c)" "keeps g (getAIRTSP_Service c)"
  "keeps g (getSIMFQT_Service c)"
  by (simp_all add: getSTDAIR_Service_def getSEVMGR_Service_def getAIRINV_Service_def
      getAIRTSP_Service_def getSIMFQT_Service_def keeps_deref)

lemma keeps_display [keeps_intros]:
  "keeps g (shortDisplay c)" "keeps g (display c)" "keeps g (describe c)"
  by (auto simp: shortDisplay_def display_def describe_def intro!: keeps_intros)

lemmas setter_defs = setCRSCode_def setSTDAIR_Service_def setSEVMGR_Service_def
  setAIRINV_Service_def setAIRTSP_Service_def setSIMFQT_Service_def

lemmas getter_defs = getCRSCode_def getSTDAIR_ServicePtr_def getSTDAIR_Service_def
  getSEVMGR_ServicePtr_def getSEVMGR_Service_def getOwnSEVMGRServiceFlag_def
  getAIRINV_Service_def getAIRTSP_Service_def getSIMFQT_Service_def

lemma drop_sptr_simps [simp]:
  "drop_sptr release None w = w" "drop_sptr release (Some x) w = release x w"
  by (simp_all add: drop_sptr_def)

lemma drop_all_simps [simp]:
  "drop_all release [] w = w"
  "drop_all release (p # ps) w = drop_all release ps (drop_sptr release p w)"
  "drop_all release (ps @ qs) w = drop_all release qs (drop_all release ps w)"
  by (simp_all add: drop_all_def)

lemma drop_all_None: "set ps \<subseteq> {None} \<Longrightarrow> drop_all release ps w = w"
  by (induction ps) auto

lemma drop_all_idle [simp]: "drop_all (\<lambda>_ w. w) ps w = w"
  by (induction ps arbitrary: w) (auto simp: drop_sptr_def split: option.split)

lemma emptied_fields [simp]:
  "stdairService (emptied c) = None" "sevmgrService (emptied c) = None"
  "airtspService (emptied c) = None" "airinvService (emptied c) = None"
  "simfqtService (emptied c) = None" "ownStdairService (emptied c) = ownStdairService c"
  "ownSEVMGRService (emptied c) = ownSEVMGRService c" "CRSCode (emptied c) = CRSCode c"
  by (simp_all add: emptied_def)

lemma reset_eq: "reset release c w = (emptied c, drop_all release (reset_order c) w)"
  by (simp add: reset_def emptied_def reset_order_def Let_def)

lemma ServiceContext_destroy_eq:
  "ServiceContext_destroy release c w = drop_all release (rev (context_slots c)) w"
  by (simp add: ServiceContext_destroy_def context_slots_def)

lemma context_refs_alt:
  "context_refs x c = of_bool (stdairService c = Some x) + of_bool (sevmgrService c = Some x)
     + of_bool (airtspService c = Some x) + of_bool (airinvService c = Some x)
     + of_bool (simfqtService c = Some x)"
  by (simp add: context_refs_def context_slots_def)

lemma context_refs_emptied [simp]: "context_refs x (emptied c) = 0"
  by (simp add: context_refs_alt)

lemma slots_emptied [simp]: "context_slots (emptied c) = [None, None, None, None, None]"
  by (simp add: context_slots_def)

lemma complete_getters:
  assumes "context_complete c"
  obtains st own ts ai fq where
    "stdairService c = Some st" "ownStdairService c = Some own" "airtspService c = Some ts"
    "airinvService c = Some ai" "simfqtService c = Some fq"
  using assms unfolding context_complete_def not_None_eq by blast

section \<open>Properties\<close>

text \<open>
  A context straight from its main constructor can not be displayed: the flag that the
  text shows was never initialised. From the moment the StdAir service is set, the text shows
  the CRS code and the flag.
\<close>

lemma display_needs_ownership:
  "display (ServiceContext_make crs) s = (Halt (Undefined Indeterminate), s) \<and>
   display (setSTDAIR_Service p own (ServiceContext_make crs)) s
     = (Ret (''SIMCRS_ServiceContext ['' @ crs @ ''] - Owns StdAir service: '' @ show_bool own), s)"
  by (simp add: display_def shortDisplay_def ServiceContext_make_def setSTDAIR_Service_def)

end
