(* ===== verification/CRS_Services.thy ===== *)
theory CRS_Services
  imports CRS_Context
begin

text \<open>
  The components that SimCRS calls and that are not part of this repository: StdAir (data
  model, log, chronometer), AirTSP (schedule), AirInv (inventory), SimFQT (fare quote) and
  SEvMgr (events). None of their code is modelled. Each service class is a record of the
  operations that SimCRS calls, on an abstract state \<open>'w\<close> of all these components, and the
  model takes these records as a parameter. An operation may return, throw or stop, and it
  may change \<open>'w\<close> in any way. A reference parameter that the callee may write is a part of the
  state the operation runs on.

  The structures that travel between the components are modelled by what SimCRS reads of
  them; everything else they hold is one field that SimCRS carries along and never looks at.
\<close>

section \<open>Structures\<close>

type_synonym attrs = "(string \<times> string) list"
type_synonym BookingClassID_T = nat
type_synonym PartySize_T = int
type_synonym NbOfSeats_T = int
type_synonym BomRoot = nat

record fare_option =
  classPath :: "string list"
  fareOptionRest :: attrs

record travel_solution =
  segmentPath :: "string list"
  classObjectIDMapHolder :: "(string \<rightharpoonup> BookingClassID_T) list"
  fareOptionList :: "fare_option list"
  chosenFareOption :: fare_option
  travelSolutionRest :: attrs

record cancellation_struct =
  cancelledPartySize :: PartySize_T
  classIDList :: "BookingClassID_T list"
  cancellationRest :: attrs

datatype booking_request = BookingRequestStruct attrs
datatype snapshot_struct = SnapshotStruct attrs
datatype rm_event_struct = RMEventStruct attrs
datatype Date_T = Date string

record log_params =
  logLevel :: string
  logStream :: string

record db_params =
  dbUser :: string
  dbPasswd :: string
  dbHost :: string
  dbPort :: string
  dbName :: string

section \<open>The service interfaces\<close>

text \<open>
  \<open>_make\<close> is \<open>boost::make_shared\<close> of the service class: the identity of the new object.
\<close>

record 'w stdair_api =
  stdair_make :: "log_params \<Rightarrow> ('w, svc) prog"
  stdair_make_db :: "log_params \<Rightarrow> db_params \<Rightarrow> ('w, svc) prog"
  stdair_getBomRoot :: "svc \<Rightarrow> ('w, BomRoot) prog"
  stdair_getPersistentBomRoot :: "svc \<Rightarrow> ('w, BomRoot) prog"
  stdair_buildSampleBom :: "svc \<Rightarrow> ('w, unit) prog"
  stdair_clonePersistentBom :: "svc \<Rightarrow> ('w, unit) prog"
  stdair_buildSampleTravelSolutions :: "svc \<Rightarrow> (travel_solution list \<times> 'w, unit) prog"
  stdair_buildSampleBookingRequest :: "svc \<Rightarrow> bool \<Rightarrow> ('w, booking_request) prog"
  stdair_csvDisplay :: "svc \<Rightarrow> BomRoot \<Rightarrow> ('w, string) prog"
  stdair_csvDisplay_list :: "svc \<Rightarrow> travel_solution list \<Rightarrow> ('w, string) prog"

record 'w airtsp_api =
  airtsp_make :: "sptr \<Rightarrow> ('w, svc) prog"
  airtsp_parseAndLoad :: "svc \<Rightarrow> string \<Rightarrow> ('w, unit) prog"
  airtsp_buildSampleBom :: "svc \<Rightarrow> ('w, unit) prog"
  airtsp_clonePersistentBom :: "svc \<Rightarrow> ('w, unit) prog"
  airtsp_buildSegmentPathList ::
    "svc \<Rightarrow> booking_request \<Rightarrow> (travel_solution list \<times> 'w, unit) prog"

record 'w simfqt_api =
  simfqt_make :: "sptr \<Rightarrow> ('w, svc) prog"
  simfqt_parseAndLoad :: "svc \<Rightarrow> string \<Rightarrow> ('w, unit) prog"
  simfqt_buildSampleBom :: "svc \<Rightarrow> ('w, unit) prog"
  simfqt_clonePersistentBom :: "svc \<Rightarrow> ('w, unit) prog"
  simfqt_quotePrices :: "svc \<Rightarrow> booking_request \<Rightarrow> (travel_solution list \<times> 'w, unit) prog"

record 'w airinv_api =
  airinv_make :: "sptr \<Rightarrow> ('w, svc) prog"
  airinv_make_sevmgr :: "sptr \<Rightarrow> sptr \<Rightarrow> ('w, svc) prog"
  airinv_parseAndLoad ::
    "svc \<Rightarrow> string \<Rightarrow> string \<Rightarrow> string \<Rightarrow> string \<Rightarrow> string \<Rightarrow> ('w, unit) prog"
  airinv_buildSampleBom :: "svc \<Rightarrow> ('w, unit) prog"
  airinv_clonePersistentBom :: "svc \<Rightarrow> ('w, unit) prog"
  airinv_calculateAvailability :: "svc \<Rightarrow> (travel_solution \<times> 'w, unit) prog"
  airinv_sell_id :: "svc \<Rightarrow> BookingClassID_T \<Rightarrow> NbOfSeats_T \<Rightarrow> ('w, bool) prog"
  airinv_sell_key :: "svc \<Rightarrow> string \<Rightarrow> string \<Rightarrow> NbOfSeats_T \<Rightarrow> ('w, bool) prog"
  airinv_cancel :: "svc \<Rightarrow> BookingClassID_T \<Rightarrow> PartySize_T \<Rightarrow> ('w, bool) prog"
  airinv_jsonHandler :: "svc \<Rightarrow> string \<Rightarrow> ('w, string) prog"
  airinv_list :: "svc \<Rightarrow> string \<Rightarrow> int \<Rightarrow> ('w, string) prog"
  airinv_csvDisplay :: "svc \<Rightarrow> string \<Rightarrow> int \<Rightarrow> Date_T \<Rightarrow> ('w, string) prog"
  airinv_initSnapshotAndRMEvents :: "svc \<Rightarrow> Date_T \<Rightarrow> Date_T \<Rightarrow> ('w, unit) prog"
  airinv_takeSnapshots :: "svc \<Rightarrow> snapshot_struct \<Rightarrow> ('w, unit) prog"
  airinv_optimise :: "svc \<Rightarrow> rm_event_struct \<Rightarrow> ('w, unit) prog"

text \<open>
  StdAir's log and chronometer, the texts its structures print as, and the conversion from a
  party size to a number of seats. A chronometer is a mark taken by \<open>start\<close>; the elapsed time
  is its printed form.
\<close>

record 'w util_api =
  log_debug :: "string \<Rightarrow> ('w, unit) prog"
  log_error :: "string \<Rightarrow> ('w, unit) prog"
  chrono_start :: "('w, nat) prog"
  chrono_elapsed :: "nat \<Rightarrow> ('w, string) prog"
  show_party :: "PartySize_T \<Rightarrow> string"
  show_fare :: "fare_option \<Rightarrow> string"
  describe_solution :: "travel_solution \<Rightarrow> string"
  describe_fare_option :: "fare_option \<Rightarrow> string"
  describe_cancellation :: "cancellation_struct \<Rightarrow> string"
  display_solution :: "travel_solution \<Rightarrow> string"
  display_request :: "booking_request \<Rightarrow> string"
  stream_request :: "booking_request \<Rightarrow> string"
  seats_of_party :: "PartySize_T \<Rightarrow> NbOfSeats_T"

text \<open>
  \<open>boost::shared_ptr\<close>, seen from the object: copying a pointer adds a reference to the object,
  giving one up removes it, and the last one deletes the object. Neither throws. The control
  block and what the destructor of the object does are part of the outside world. Copies are
  elided where C++ lets a function build its result in place: the pointers that
  \<open>make_shared\<close>, a getter or an initialisation step return.
\<close>

record 'w shared_api =
  sptr_copy :: "svc \<Rightarrow> 'w \<Rightarrow> 'w"
  sptr_release :: "svc \<Rightarrow> 'w \<Rightarrow> 'w"

record 'w apis =
  stdairA :: "'w stdair_api"
  airtspA :: "'w airtsp_api"
  simfqtA :: "'w simfqt_api"
  airinvA :: "'w airinv_api"
  utilA :: "'w util_api"
  sharedA :: "'w shared_api"

text \<open>
  Copying a shared pointer and giving one up; assigning one: the new value is copied, then the
  old one given up. Nothing happens for NULL.
\<close>

definition take_sptr :: "'w apis \<Rightarrow> sptr \<Rightarrow> 'w \<Rightarrow> 'w" where
  "take_sptr A p w = (case p of None \<Rightarrow> w | Some x \<Rightarrow> sptr_copy (sharedA A) x w)"

definition give_sptr :: "'w apis \<Rightarrow> sptr \<Rightarrow> 'w \<Rightarrow> 'w" where
  "give_sptr A = drop_sptr (sptr_release (sharedA A))"

definition assign_sptr :: "'w apis \<Rightarrow> sptr \<Rightarrow> sptr \<Rightarrow> 'w \<Rightarrow> 'w" where
  "assign_sptr A old new w = give_sptr A old (take_sptr A new w)"

text \<open>
  A shared pointer that is passed by value is copied for the time of the call: what a function
  \<open>f\<close> of the outside world then does, and what a program does, however it ends.
\<close>

definition pass_sptr :: "'w apis \<Rightarrow> sptr \<Rightarrow> ('w \<Rightarrow> 'w) \<Rightarrow> 'w \<Rightarrow> 'w" where
  "pass_sptr A p f w = give_sptr A p (f (take_sptr A p w))"

definition held_sptr :: "'w apis \<Rightarrow> sptr \<Rightarrow> ('w, 'a) prog \<Rightarrow> ('w, 'a) prog" where
  "held_sptr A p m w = finally_do (give_sptr A p) m (take_sptr A p w)"

lemma sptr_simps [simp]:
  "take_sptr A None w = w" "take_sptr A (Some x) w = sptr_copy (sharedA A) x w"
  "give_sptr A None w = w" "give_sptr A (Some x) w = sptr_release (sharedA A) x w"
  by (simp_all add: take_sptr_def give_sptr_def)

lemma held_sptr_Ret_iff [simp]:
  "held_sptr A p m w = (Ret x, v) \<longleftrightarrow> (\<exists>u. m (take_sptr A p w) = (Ret x, u) \<and> v = give_sptr A p u)"
  by (simp add: held_sptr_def)

lemma held_sptr_outcome [simp]: "fst (held_sptr A p m w) = fst (m (take_sptr A p w))"
  by (simp add: held_sptr_def)

lemma held_sptr_None [simp]: "held_sptr A None m = m"
  by (rule ext) (simp add: held_sptr_def finally_do_def split: prod.split outcome.split)

section \<open>A sample environment\<close>

text \<open>
  A small concrete environment, used by the witnesses only: its state is the list of the
  calls received, each with the identity of the service called, and the next identity to
  give out. \<open>ok\<close> says which booking classes have seats left, \<open>sols\<close> is what the schedule
  finds for every request.
\<close>

type_synonym echo = "(string \<times> svc) list \<times> svc"

definition note_call :: "string \<Rightarrow> svc \<Rightarrow> 'a \<Rightarrow> (echo, 'a) prog" where
  "note_call nm x r = (\<lambda>(l, n). (Ret r, (l @ [(nm, x)], n)))"

definition make_svc :: "string \<Rightarrow> (echo, svc) prog" where
  "make_svc nm = (\<lambda>(l, n). (Ret n, (l @ [(nm, n)], Suc n)))"

definition note_inout :: "string \<Rightarrow> svc \<Rightarrow> ('v \<Rightarrow> 'v) \<Rightarrow> ('v \<times> echo, unit) prog" where
  "note_inout nm x f = (\<lambda>(v, l, n). (Ret (), (f v, l @ [(nm, x)], n)))"

definition echo_apis ::
  "(BookingClassID_T \<Rightarrow> bool) \<Rightarrow> travel_solution list \<Rightarrow> echo apis" where
  "echo_apis ok sols = \<lparr>
     stdairA = \<lparr>stdair_make = (\<lambda>_. make_svc ''stdair''),
       stdair_make_db = (\<lambda>_ _. make_svc ''stdair''),
       stdair_getBomRoot = (\<lambda>x. note_call ''bomRoot'' x 0),
       stdair_getPersistentBomRoot = (\<lambda>x. note_call ''persistentBomRoot'' x 0),
       stdair_buildSampleBom = (\<lambda>x. note_call ''stdair.sample'' x ()),
       stdair_clonePersistentBom = (\<lambda>x. note_call ''stdair.clone'' x ()),
       stdair_buildSampleTravelSolutions = (\<lambda>x. note_inout ''stdair.samples'' x (\<lambda>v. v @ sols)),
       stdair_buildSampleBookingRequest =
         (\<lambda>x _. note_call ''stdair.request'' x (BookingRequestStruct [])),
       stdair_csvDisplay = (\<lambda>x _. note_call ''stdair.csv'' x ''csv''),
       stdair_csvDisplay_list = (\<lambda>x _. note_call ''stdair.csvs'' x ''csv'')\<rparr>,
     airtspA = \<lparr>airtsp_make = (\<lambda>_. make_svc ''airtsp''),
       airtsp_parseAndLoad = (\<lambda>x _. note_call ''airtsp.parse'' x ()),
       airtsp_buildSampleBom = (\<lambda>x. note_call ''airtsp.sample'' x ()),
       airtsp_clonePersistentBom = (\<lambda>x. note_call ''airtsp.clone'' x ()),
       airtsp_buildSegmentPathList = (\<lambda>x _. note_inout ''airtsp.paths'' x (\<lambda>v. v @ sols))\<rparr>,
     simfqtA = \<lparr>simfqt_make = (\<lambda>_. make_svc ''simfqt''),
       simfqt_parseAndLoad = (\<lambda>x _. note_call ''simfqt.parse'' x ()),
       simfqt_buildSampleBom = (\<lambda>x. note_call ''simfqt.sample'' x ()),
       simfqt_clonePersistentBom = (\<lambda>x. note_call ''simfqt.clone'' x ()),
       simfqt_quotePrices = (\<lambda>x _. note_inout ''simfqt.quote'' x (\<lambda>v. v))\<rparr>,
     airinvA = \<lparr>airinv_make = (\<lambda>_. make_svc ''airinv''),
       airinv_make_sevmgr = (\<lambda>_ _. make_svc ''airinv''),
       airinv_parseAndLoad = (\<lambda>x _ _ _ _ _. note_call ''airinv.parse'' x ()),
       airinv_buildSampleBom = (\<lambda>x. note_call ''airinv.sample'' x ()),
       airinv_clonePersistentBom = (\<lambda>x. note_call ''airinv.clone'' x ()),
       airinv_calculateAvailability = (\<lambda>x. note_inout ''airinv.avail'' x
         (\<lambda>v. v\<lparr>travelSolutionRest := (''avail'', ''done'') # travelSolutionRest v\<rparr>)),
       airinv_sell_id = (\<lambda>x c _. note_call ''airinv.sell'' x (ok c)),
       airinv_sell_key = (\<lambda>x _ _ _. note_call ''airinv.sellKey'' x True),
       airinv_cancel = (\<lambda>x c _. note_call ''airinv.cancel'' x (ok c)),
       airinv_jsonHandler = (\<lambda>x _. note_call ''airinv.json'' x ''json''),
       airinv_list = (\<lambda>x _ _. note_call ''airinv.list'' x ''list''),
       airinv_csvDisplay = (\<lambda>x _ _ _. note_call ''airinv.csv'' x ''csv''),
       airinv_initSnapshotAndRMEvents = (\<lambda>x _ _. note_call ''airinv.init'' x ()),
       airinv_takeSnapshots = (\<lambda>x _. note_call ''airinv.snap'' x ()),
       airinv_optimise = (\<lambda>x _. note_call ''airinv.optimise'' x ())\<rparr>,
     utilA = \<lparr>log_debug = (\<lambda>_. ret ()), log_error = (\<lambda>_. ret ()), chrono_start = ret 0,
       chrono_elapsed = (\<lambda>_. ret ''0''), show_party = (\<lambda>_. ''3''), show_fare = (\<lambda>_. ''0''),
       describe_solution = (\<lambda>_. []), describe_fare_option = (\<lambda>_. []),
       describe_cancellation = (\<lambda>_. []), display_solution = (\<lambda>_. []),
       display_request = (\<lambda>_. []), stream_request = (\<lambda>_. []), seats_of_party = (\<lambda>n. n)\<rparr>,
     sharedA = \<lparr>sptr_copy = (\<lambda>_ w. w), sptr_release = (\<lambda>_ w. w)\<rparr>\<rparr>"

lemma note_simps [simp]:
  "note_call nm x r (l, n) = (Ret r, (l @ [(nm, x)], n))"
  "make_svc nm (l, n) = (Ret n, (l @ [(nm, n)], Suc n))"
  "note_inout nm x f (v, l, n) = (Ret (), (f v, l @ [(nm, x)], n))"
  by (simp_all add: note_call_def make_svc_def note_inout_def)

end
