(* ===== verification/CRS_Factories.thy ===== *)
theory CRS_Factories
  imports CRS_Services
begin

text \<open>
  The factories (\<open>simcrs/factory/\<close>): the singletons \<open>FacSupervisor\<close> and
  \<open>FacSimcrsServiceContext\<close>, the base classes \<open>FacServiceAbstract\<close> and
  \<open>FacBomAbstract\<close> with their pools, and who deletes what. Objects live in partial maps from
  addresses; an address out of the map belongs to no live object, and an access through it,
  or a second delete, is a fault. \<open>new\<close> takes the next address that was never used. Deleting a
  context gives its shared pointers up, an effect on the outside world, so that the state has
  this world beside the memory.
\<close>

section \<open>Memory\<close>

type_synonym addr = nat
type_synonym pool = "addr option list"

record supervisor =
  bomPool :: pool
  svcPool :: pool

record mem =
  supervisorInstance :: "addr option"
  ctxFactoryInstance :: "addr option"
  supervisors :: "addr \<rightharpoonup> supervisor"
  serviceFactories :: "addr \<rightharpoonup> pool"
  bomFactories :: "addr \<rightharpoonup> pool"
  contexts :: "addr \<rightharpoonup> service_context"
  boms :: "addr \<rightharpoonup> unit"
  nextAddr :: addr

text \<open>The state of the process: this memory and the outside world.\<close>

record 'w crs_state = mem +
  world :: 'w

definition touch_world :: "('w \<Rightarrow> 'w) \<Rightarrow> (('w, 'x) crs_state_scheme, unit) prog" where
  "touch_world f = modS (\<lambda>s. s\<lparr>world := f (world s)\<rparr>)"

lemma touch_world_run [simp, crs_prog]: "touch_world f s = (Ret (), s\<lparr>world := f (world s)\<rparr>)"
  by (simp add: touch_world_def)

lemma keeps_touch_world [keeps_intros]:
  "(\<And>s w. g (s\<lparr>world := w\<rparr>) = g s) \<Longrightarrow> keeps g (touch_world f)"
  by (simp add: keeps_def)

definition empty_mem :: mem where
  "empty_mem = \<lparr>supervisorInstance = None, ctxFactoryInstance = None,
     supervisors = Map.empty, serviceFactories = Map.empty, bomFactories = Map.empty,
     contexts = Map.empty, boms = Map.empty, nextAddr = 0\<rparr>"

text \<open>Reading an object through a pointer that must be alive.\<close>

definition load :: "('s \<Rightarrow> (addr \<rightharpoonup> 'o)) \<Rightarrow> addr \<Rightarrow> ('s, 'o) prog" where
  "load field a = (\<lambda>s. case field s a of
      None \<Rightarrow> (Halt (Undefined Dangling), s) | Some x \<Rightarrow> (Ret x, s))"

lemma load_simps [simp, crs_prog]:
  "field s a = Some x \<Longrightarrow> load field a s = (Ret x, s)"
  "field s a = None \<Longrightarrow> load field a s = (Halt (Undefined Dangling), s)"
  by (simp_all add: load_def)

lemma bindM_load [crs_prog]:
  "bindM (load field a) f s = (case field s a of
      None \<Rightarrow> (Halt (Undefined Dangling), s) | Some x \<Rightarrow> f x s)"
  by (simp add: bindM_cases load_def split: option.split)

lemma keeps_load [keeps_intros]: "keeps g (load field a)"
  by (simp add: keeps_def load_def split: option.split)

section \<open>Deleting what a pool points to\<close>

text \<open>
  The loop that every clean-up method has: for each pointer of the pool, assert that it is
  not NULL, then delete the object. \<open>del\<close> is the destructor with the deallocation.
\<close>

fun delete_all :: "(addr \<Rightarrow> ('s, unit) prog) \<Rightarrow> pool \<Rightarrow> ('s, unit) prog" where
  "delete_all del [] = ret ()"
| "delete_all del (None # ps) = halt AssertionFailure"
| "delete_all del (Some a # ps) = seqM (del a) (delete_all del ps)"

section \<open>Service contexts and business objects\<close>

text \<open>
  \<open>delete\<close> of a context: its members give their shared pointers up, then the object is gone.
\<close>

definition delete_context :: "'w apis \<Rightarrow> addr \<Rightarrow> (('w, 'x) crs_state_scheme, unit) prog" where
  "delete_context A a = bindM (load contexts a) (\<lambda>c.
     seqM (touch_world (ServiceContext_destroy (sptr_release (sharedA A)) c))
          (modS (\<lambda>m. m\<lparr>contexts := (contexts m)(a := None)\<rparr>)))"

definition delete_bom :: "addr \<Rightarrow> ('x mem_scheme, unit) prog" where
  "delete_bom a = seqM (bindM (load boms a) (\<lambda>_. ret ()))
     (modS (\<lambda>m. m\<lparr>boms := (boms m)(a := None)\<rparr>))"

section \<open>FacServiceAbstract and FacBomAbstract\<close>

definition FacServiceAbstract_clean ::
  "'w apis \<Rightarrow> addr \<Rightarrow> (('w, 'x) crs_state_scheme, unit) prog" where
  "FacServiceAbstract_clean A f = bindM (load serviceFactories f) (\<lambda>p.
     seqM (delete_all (delete_context A) p)
       (modS (\<lambda>m. m\<lparr>serviceFactories := (serviceFactories m)(f \<mapsto> [])\<rparr>)))"

definition FacBomAbstract_clean :: "addr \<Rightarrow> ('x mem_scheme, unit) prog" where
  "FacBomAbstract_clean f = bindM (load bomFactories f) (\<lambda>p.
     seqM (delete_all delete_bom p)
       (modS (\<lambda>m. m\<lparr>bomFactories := (bomFactories m)(f \<mapsto> [])\<rparr>)))"

text \<open>
  \<open>delete\<close> of a service factory through its base class: the destructor of
  \<open>FacSimcrsServiceContext\<close> (the only concrete class) resets the singleton pointer, then
  the base class destructor cleans the pool, then the object is gone. A business object
  factory has the base class destructor only.
\<close>

definition delete_service_factory ::
  "'w apis \<Rightarrow> addr \<Rightarrow> (('w, 'x) crs_state_scheme, unit) prog" where
  "delete_service_factory A f = bindM (load serviceFactories f) (\<lambda>_.
     seqM (modS (\<lambda>m. m\<lparr>ctxFactoryInstance := None\<rparr>))
    (seqM (FacServiceAbstract_clean A f)
          (modS (\<lambda>m. m\<lparr>serviceFactories := (serviceFactories m)(f := None)\<rparr>))))"

definition delete_bom_factory :: "addr \<Rightarrow> ('x mem_scheme, unit) prog" where
  "delete_bom_factory f = seqM (FacBomAbstract_clean f)
     (modS (\<lambda>m. m\<lparr>bomFactories := (bomFactories m)(f := None)\<rparr>))"

section \<open>FacSupervisor\<close>

definition FacSupervisor_instance :: "('x mem_scheme, addr) prog" where
  "FacSupervisor_instance = (\<lambda>m. case supervisorInstance m of
      Some a \<Rightarrow> (Ret a, m)
    | None \<Rightarrow> (Ret (nextAddr m),
        m\<lparr>supervisorInstance := Some (nextAddr m),
          supervisors := (supervisors m)(nextAddr m \<mapsto> \<lparr>bomPool = [], svcPool = []\<rparr>),
          nextAddr := Suc (nextAddr m)\<rparr>))"

definition registerBomFactory :: "addr \<Rightarrow> addr option \<Rightarrow> ('x mem_scheme, unit) prog" where
  "registerBomFactory this ioFac = bindM (load supervisors this) (\<lambda>sv.
     modS (\<lambda>m. m\<lparr>supervisors :=
       (supervisors m)(this \<mapsto> sv\<lparr>bomPool := bomPool sv @ [ioFac]\<rparr>)\<rparr>))"

definition registerServiceFactory :: "addr \<Rightarrow> addr option \<Rightarrow> ('x mem_scheme, unit) prog" where
  "registerServiceFactory this ioFac = bindM (load supervisors this) (\<lambda>sv.
     modS (\<lambda>m. m\<lparr>supervisors :=
       (supervisors m)(this \<mapsto> sv\<lparr>svcPool := svcPool sv @ [ioFac]\<rparr>)\<rparr>))"

definition cleanBomLayer :: "addr \<Rightarrow> ('x mem_scheme, unit) prog" where
  "cleanBomLayer this = bindM (load supervisors this) (\<lambda>sv.
     seqM (delete_all delete_bom_factory (bomPool sv))
       (modS (\<lambda>m. m\<lparr>supervisors := (supervisors m)(this \<mapsto> sv\<lparr>bomPool := []\<rparr>)\<rparr>)))"

definition cleanServiceLayer :: "'w apis \<Rightarrow> addr \<Rightarrow> (('w, 'x) crs_state_scheme, unit) prog" where
  "cleanServiceLayer A this = bindM (load supervisors this) (\<lambda>sv.
     seqM (delete_all (delete_service_factory A) (svcPool sv))
       (modS (\<lambda>m. m\<lparr>supervisors := (supervisors m)(this \<mapsto> sv\<lparr>svcPool := []\<rparr>)\<rparr>)))"

definition delete_supervisor :: "'w apis \<Rightarrow> addr \<Rightarrow> (('w, 'x) crs_state_scheme, unit) prog" where
  "delete_supervisor A this = seqM (cleanBomLayer this) (seqM (cleanServiceLayer A this)
     (modS (\<lambda>m. m\<lparr>supervisors := (supervisors m)(this := None)\<rparr>)))"

text \<open>\<open>delete\<close> of a NULL pointer does nothing.\<close>

definition cleanFactory :: "'w apis \<Rightarrow> (('w, 'x) crs_state_scheme, unit) prog" where
  "cleanFactory A = bindM (getS supervisorInstance) (\<lambda>inst.
     seqM (case inst of None \<Rightarrow> ret ()
           | Some a \<Rightarrow> seqM (cleanBomLayer a) (cleanServiceLayer A a))
    (seqM (case inst of None \<Rightarrow> ret () | Some a \<Rightarrow> delete_supervisor A a)
          (modS (\<lambda>m. m\<lparr>supervisorInstance := None\<rparr>))))"

section \<open>FacSimcrsServiceContext\<close>

definition FacSimcrsServiceContext_instance :: "('x mem_scheme, addr) prog" where
  "FacSimcrsServiceContext_instance = bindM (getS ctxFactoryInstance) (\<lambda>inst. case inst of
      Some f \<Rightarrow> ret f
    | None \<Rightarrow> bindM (getS nextAddr) (\<lambda>f.
        seqM (modS (\<lambda>m. m\<lparr>ctxFactoryInstance := Some f,
                           serviceFactories := (serviceFactories m)(f \<mapsto> []),
                           nextAddr := Suc f\<rparr>))
             (bindM FacSupervisor_instance (\<lambda>sv.
                seqM (registerServiceFactory sv (Some f)) (ret f)))))"

definition FacSimcrsServiceContext_create :: "addr \<Rightarrow> string \<Rightarrow> ('x mem_scheme, addr) prog" where
  "FacSimcrsServiceContext_create this iTravelDatabaseName =
     bindM (getS nextAddr) (\<lambda>a.
     seqM (modS (\<lambda>m. m\<lparr>contexts := (contexts m)(a \<mapsto> ServiceContext_make iTravelDatabaseName),
                        nextAddr := Suc a\<rparr>))
          (bindM (load serviceFactories this) (\<lambda>p.
             seqM (modS (\<lambda>m. m\<lparr>serviceFactories := (serviceFactories m)(this \<mapsto> p @ [Some a])\<rparr>))
                  (ret a))))"

section \<open>The contract of an object store\<close>

text \<open>
  What the clean-up loop needs from the destructor it calls: deleting a live object returns,
  removes exactly that object from the live ones and keeps the invariant and the rest of the
  memory, with an effect on the outside that the object determines; deleting a dead one is a
  fault. The loop then returns exactly on the pools that hold each a live object, none twice,
  it leaves none of them alive, and its effect is that of the objects in their order.
\<close>

definition good_pool :: "addr set \<Rightarrow> pool \<Rightarrow> bool" where
  "good_pool L ps \<longleftrightarrow> distinct ps \<and> set ps \<subseteq> Some ` L"

lemma good_pool_Nil [simp]: "good_pool L []"
  by (simp add: good_pool_def)

lemma good_pool_Cons [simp]:
  "good_pool L (p # ps) \<longleftrightarrow> (\<exists>a. p = Some a \<and> a \<in> L \<and> good_pool (L - {a}) ps)"
  by (auto simp: good_pool_def)

locale object_store =
  fixes objs :: "'s \<Rightarrow> (addr \<rightharpoonup> 'o)"
    and inv :: "'s \<Rightarrow> bool"
    and rest :: "'s \<Rightarrow> 'r"
    and out :: "'s \<Rightarrow> 'e"
    and gives :: "'o \<Rightarrow> 'e \<Rightarrow> 'e"
    and del :: "addr \<Rightarrow> ('s, unit) prog"
  assumes delete_live:
      "inv s \<Longrightarrow> a \<in> dom (objs s) \<Longrightarrow>
       \<exists>t. del a s = (Ret (), t) \<and> inv t \<and> objs t = (objs s)(a := None) \<and> rest t = rest s \<and>
           out t = gives (the (objs s a)) (out s)"
    and delete_dead:
      "inv s \<Longrightarrow> a \<notin> dom (objs s) \<Longrightarrow> del a s = (Halt (Undefined Dangling), s)"
begin

lemma delete_all_good:
  "inv s \<Longrightarrow> good_pool (dom (objs s)) ps \<Longrightarrow>
   \<exists>t. delete_all del ps s = (Ret (), t) \<and> inv t \<and>
       objs t = objs s |` {a. Some a \<notin> set ps} \<and> rest t = rest s \<and>
       out t = fold (\<lambda>p. gives (the (objs s (the p)))) ps (out s)"
proof (induction ps arbitrary: s)
  case Nil
  then show ?case by simp
next
  case (Cons p ps)
  from Cons.prems obtain a where
    p: "p = Some a" "a \<in> dom (objs s)" "good_pool (dom (objs s) - {a}) ps"
    by auto
  obtain u where
    u: "del a s = (Ret (), u)" "inv u" "objs u = (objs s)(a := None)" "rest u = rest s"
      "out u = gives (the (objs s a)) (out s)"
    using delete_live [OF Cons.prems(1) p(2)] by blast
  from u p have "good_pool (dom (objs u)) ps" by simp
  with Cons.IH [OF u(2)] obtain t where "delete_all del ps u = (Ret (), t)" "inv t"
      "objs t = objs u |` {b. Some b \<notin> set ps}" "rest t = rest u"
      "out t = fold (\<lambda>p. gives (the (objs u (the p)))) ps (out u)"
    by blast
  moreover have "fold (\<lambda>p. gives (the (objs u (the p)))) ps w
      = fold (\<lambda>p. gives (the (objs s (the p)))) ps w" for w
    using p(3) u(3) by (intro fold_cong) (auto simp: good_pool_def)
  ultimately show ?case using u p
    by (intro exI [of _ t]) (auto simp: seqM_cases restrict_map_def fun_eq_iff)
qed

lemma delete_all_bad:
  "inv s \<Longrightarrow> \<not> good_pool (dom (objs s)) ps \<Longrightarrow> is_halt (fst (delete_all del ps s))"
proof (induction ps arbitrary: s)
  case Nil
  then show ?case by simp
next
  case (Cons p ps)
  show ?case
  proof (cases "\<exists>a. p = Some a \<and> a \<in> dom (objs s)")
    case True
    then obtain a u where p: "p = Some a" "a \<in> dom (objs s)"
      and u: "del a s = (Ret (), u)" "inv u" "objs u = (objs s)(a := None)"
      using delete_live [OF Cons.prems(1)] by blast
    with Cons.prems(2) have "\<not> good_pool (dom (objs u)) ps" by simp
    from Cons.IH [OF u(2) this] u(1) p(1) show ?thesis by (simp add: seqM_cases)
  next
    case False
    with delete_dead [OF Cons.prems(1)] show ?thesis
      by (cases p) (auto simp: seqM_cases)
  qed
qed

lemma delete_all_returns_iff:
  "inv s \<Longrightarrow> (\<exists>t. delete_all del ps s = (Ret (), t)) \<longleftrightarrow> good_pool (dom (objs s)) ps"
  by (metis delete_all_bad delete_all_good fst_conv is_halt_simps(1))

end

section \<open>Pools that own their objects\<close>

text \<open>
  The pools \<open>F\<close> of all factories of a layer own the objects \<open>O\<close> of that layer: each pool
  points to live objects, none is in two places, and every live object is in a pool.
\<close>

definition in_pool :: "(addr \<rightharpoonup> pool) \<Rightarrow> addr \<Rightarrow> addr \<Rightarrow> bool" where
  "in_pool F f a \<longleftrightarrow> (\<exists>p. F f = Some p \<and> Some a \<in> set p)"

definition pools_own :: "(addr \<rightharpoonup> pool) \<Rightarrow> (addr \<rightharpoonup> 'o) \<Rightarrow> bool" where
  "pools_own F B \<longleftrightarrow>
     (\<forall>f p. F f = Some p \<longrightarrow> distinct p \<and> None \<notin> set p) \<and>
     (\<forall>f g a. in_pool F f a \<longrightarrow> in_pool F g a \<longrightarrow> f = g) \<and>
     (\<forall>a. a \<in> dom B \<longleftrightarrow> (\<exists>f. in_pool F f a))"

lemma in_pool_upd [simp]:
  "in_pool (F(f := None)) g a \<longleftrightarrow> g \<noteq> f \<and> in_pool F g a"
  "in_pool (F(f \<mapsto> p)) g a \<longleftrightarrow> (if g = f then Some a \<in> set p else in_pool F g a)"
  by (auto simp: in_pool_def)

lemma in_pool_empty [simp]: "\<not> in_pool Map.empty f a"
  by (simp add: in_pool_def)

lemma in_pool_Some: "F f = Some p \<Longrightarrow> in_pool F f a \<longleftrightarrow> Some a \<in> set p"
  by (simp add: in_pool_def)

lemma in_pool_None: "F f = None \<Longrightarrow> \<not> in_pool F f a"
  by (simp add: in_pool_def)

lemma pools_own_empty [simp]: "pools_own Map.empty B \<longleftrightarrow> B = Map.empty"
  by (auto simp: pools_own_def)

lemma pools_own_pool:
  "pools_own F B \<Longrightarrow> F f = Some p \<Longrightarrow> distinct p \<and> None \<notin> set p"
  by (simp add: pools_own_def)

lemma pools_own_unique: "pools_own F B \<Longrightarrow> in_pool F f a \<Longrightarrow> in_pool F g a \<Longrightarrow> f = g"
  unfolding pools_own_def by (elim conjE) metis

lemma pools_own_dom: "pools_own F B \<Longrightarrow> a \<in> dom B \<longleftrightarrow> (\<exists>f. in_pool F f a)"
  unfolding pools_own_def by (elim conjE) (rule spec)

lemma pools_ownI:
  assumes "\<And>f p. F f = Some p \<Longrightarrow> distinct p \<and> None \<notin> set p"
    and "\<And>f g a. in_pool F f a \<Longrightarrow> in_pool F g a \<Longrightarrow> f = g"
    and "\<And>a. a \<in> dom B \<longleftrightarrow> (\<exists>f. in_pool F f a)"
  shows "pools_own F B"
  unfolding pools_own_def by (intro conjI allI impI assms)

lemma pools_own_good:
  assumes "pools_own F B" "F f = Some p"
  shows "good_pool (dom B) p"
  unfolding good_pool_def
proof (intro conjI subsetI)
  show "distinct p" using pools_own_pool [OF assms] by simp
  fix x assume x: "x \<in> set p"
  with pools_own_pool [OF assms] obtain a where a: "x = Some a" by (cases x) auto
  with x assms(2) have "in_pool F f a" by (simp add: in_pool_Some)
  with pools_own_dom [OF assms(1)] a show "x \<in> Some ` dom B" by blast
qed

lemma pools_own_remove:
  assumes "pools_own F B" "F f = Some p"
  shows "a \<in> dom (B |` {a. Some a \<notin> set p}) \<longleftrightarrow> (\<exists>g. g \<noteq> f \<and> in_pool F g a)"
proof -
  have "a \<in> dom (B |` {a. Some a \<notin> set p}) \<longleftrightarrow> a \<in> dom B \<and> \<not> in_pool F f a"
    by (auto simp: in_pool_Some assms(2))
  also have "\<dots> \<longleftrightarrow> (\<exists>g. g \<noteq> f \<and> in_pool F g a)"
    unfolding pools_own_dom [OF assms(1)] using pools_own_unique [OF assms(1), of f a] by auto
  finally show ?thesis .
qed

lemma pools_own_drop:
  assumes "pools_own F B" "F f = Some p"
  shows "pools_own (F(f := None)) (B |` {a. Some a \<notin> set p})"
proof (rule pools_ownI)
  show "distinct q \<and> None \<notin> set q" if "(F(f := None)) g = Some q" for g q
    using that pools_own_pool [OF assms(1)] by (simp split: if_splits)
  show "g = h" if "in_pool (F(f := None)) g a" "in_pool (F(f := None)) h a" for g h a
    using that pools_own_unique [OF assms(1)] by (simp only: in_pool_upd) blast
  show "a \<in> dom (B |` {a. Some a \<notin> set p}) \<longleftrightarrow> (\<exists>g. in_pool (F(f := None)) g a)" for a
    by (simp only: pools_own_remove [OF assms] in_pool_upd)
qed

lemma pools_own_clear:
  assumes "pools_own F B" "F f = Some p"
  shows "pools_own (F(f \<mapsto> [])) (B |` {a. Some a \<notin> set p})"
proof (rule pools_ownI)
  show "distinct q \<and> None \<notin> set q" if "(F(f \<mapsto> [])) g = Some q" for g q
    using that pools_own_pool [OF assms(1)] by (auto split: if_splits)
  show "g = h" if "in_pool (F(f \<mapsto> [])) g a" "in_pool (F(f \<mapsto> [])) h a" for g h a
    using that pools_own_unique [OF assms(1), of g a h] by (simp split: if_splits)
  show "a \<in> dom (B |` {a. Some a \<notin> set p}) \<longleftrightarrow> (\<exists>g. in_pool (F(f \<mapsto> [])) g a)" for a
    unfolding pools_own_remove [OF assms] by auto
qed

lemma pools_own_new_factory:
  assumes "pools_own F B" "F f = None"
  shows "pools_own (F(f \<mapsto> [])) B"
proof (rule pools_ownI)
  show "distinct q \<and> None \<notin> set q" if "(F(f \<mapsto> [])) g = Some q" for g q
    using that pools_own_pool [OF assms(1)] by (auto split: if_splits)
  show "g = h" if "in_pool (F(f \<mapsto> [])) g a" "in_pool (F(f \<mapsto> [])) h a" for g h a
    using that pools_own_unique [OF assms(1), of g a h] by (simp split: if_splits)
  show "a \<in> dom B \<longleftrightarrow> (\<exists>g. in_pool (F(f \<mapsto> [])) g a)" for a
    unfolding pools_own_dom [OF assms(1)] using in_pool_None [of F f a] assms(2) by auto
qed

lemma pools_own_new_object:
  assumes "pools_own F B" "F f = Some p" "a \<notin> dom B"
  shows "pools_own (F(f \<mapsto> p @ [Some a])) (B(a \<mapsto> x))"
proof (rule pools_ownI)
  have p: "Some b \<in> set p \<longleftrightarrow> in_pool F f b" for b
    by (simp add: in_pool_Some assms(2))
  have a: "\<not> in_pool F g a" for g
    using assms(3) pools_own_dom [OF assms(1)] by blast
  have upd: "in_pool (F(f \<mapsto> p @ [Some a])) g b \<longleftrightarrow> in_pool F g b \<or> g = f \<and> b = a" for g b
    by (auto simp: p)
  show "distinct q \<and> None \<notin> set q" if "(F(f \<mapsto> p @ [Some a])) g = Some q" for g q
    using that pools_own_pool [OF assms(1)] assms(2) a p by (auto split: if_splits)
  show "g = h" if "in_pool (F(f \<mapsto> p @ [Some a])) g b" "in_pool (F(f \<mapsto> p @ [Some a])) h b"
    for g h b
    using that a pools_own_unique [OF assms(1)] unfolding upd by blast
  show "b \<in> dom (B(a \<mapsto> x)) \<longleftrightarrow> (\<exists>g. in_pool (F(f \<mapsto> p @ [Some a])) g b)" for b
    unfolding upd using pools_own_dom [OF assms(1), of b] by auto
qed

definition give_up :: "'w apis \<Rightarrow> service_context \<Rightarrow> 'w \<Rightarrow> 'w" where
  "give_up A c = drop_all (sptr_release (sharedA A)) (rev (context_slots c))"

lemma delete_context_run:
  "delete_context A a m = (if a \<in> dom (contexts m)
     then (Ret (), m\<lparr>contexts := (contexts m)(a := None),
                     world := give_up A (the (contexts m a)) (world m)\<rparr>)
     else (Halt (Undefined Dangling), m))"
  by (auto simp: delete_context_def seqM_cases bindM_load give_up_def ServiceContext_destroy_eq
      split: option.split)

lemma delete_bom_run:
  "delete_bom a m = (if a \<in> dom (boms m)
     then (Ret (), m\<lparr>boms := (boms m)(a := None)\<rparr>)
     else (Halt (Undefined Dangling), m))"
  by (auto simp: delete_bom_def seqM_cases load_def split: option.split)

interpretation ctx_store: object_store contexts "\<lambda>_. True"
  "\<lambda>m. m\<lparr>contexts := Map.empty, world := undefined\<rparr>" world "give_up A"
  "delete_context A :: addr \<Rightarrow> (('w, 'x) crs_state_scheme, unit) prog"
  for A
  by unfold_locales (auto simp: delete_context_run)

interpretation bom_store: object_store boms "\<lambda>_. True" "\<lambda>m. m\<lparr>boms := Map.empty\<rparr>"
  "\<lambda>_. ()" "\<lambda>_ u. u" "delete_bom :: addr \<Rightarrow> ('x mem_scheme, unit) prog"
  by unfold_locales (auto simp: delete_bom_run)

end
