(* ===== verification/CRS_Memory.thy ===== *)
theory CRS_Memory
  imports CRS_Factories
begin

text \<open>
  The memory invariant of the factory layer and what each operation of
  \<open>CRS_Factories\<close> does from a memory that satisfies it: the singletons, the creation of a
  context, and the clean-up of a layer and of everything, with the shared pointers that it
  gives up, in their order.
\<close>

section \<open>The clean-up of one factory\<close>

text \<open>The pointers that the contexts of a pool give up when they are deleted, in order.\<close>

definition pool_slots :: "(addr \<rightharpoonup> service_context) \<Rightarrow> pool \<Rightarrow> sptr list" where
  "pool_slots B ps = concat (map (\<lambda>p. rev (context_slots (the (B (the p))))) ps)"

definition drop_slots :: "'w apis \<Rightarrow> sptr list \<Rightarrow> 'w \<Rightarrow> 'w" where
  "drop_slots A = drop_all (sptr_release (sharedA A))"

lemma pool_slots_simps [simp]:
  "pool_slots B [] = []" "pool_slots B (ps @ qs) = pool_slots B ps @ pool_slots B qs"
  by (simp_all add: pool_slots_def)

lemma drop_slots_simps [simp]:
  "drop_slots A [] w = w" "drop_slots A (ps @ qs) w = drop_slots A qs (drop_slots A ps w)"
  by (simp_all add: drop_slots_def)

lemma fold_give_up:
  "fold (\<lambda>p. give_up A (the (B (the p)))) ps w = drop_slots A (pool_slots B ps) w"
  by (induction ps arbitrary: w) (simp_all add: pool_slots_def drop_slots_def give_up_def)

lemma rest_contexts:
  "t\<lparr>contexts := Map.empty, world := undefined\<rparr> = m\<lparr>contexts := Map.empty, world := undefined\<rparr> \<Longrightarrow>
   t = m\<lparr>contexts := contexts t, world := world t\<rparr>"
  by (cases t, cases m) simp

lemma rest_boms:
  "t\<lparr>boms := Map.empty\<rparr> = m\<lparr>boms := Map.empty\<rparr> \<Longrightarrow> t = m\<lparr>boms := boms t\<rparr>"
  by (cases t, cases m) simp

lemma delete_contexts_run:
  assumes "good_pool (dom (contexts m)) p"
  shows "delete_all (delete_context A) p m
       = (Ret (), m\<lparr>contexts := contexts m |` {a. Some a \<notin> set p},
                    world := drop_slots A (pool_slots (contexts m) p) (world m)\<rparr>)"
  using ctx_store.delete_all_good [OF TrueI assms] unfolding fold_give_up
  by (metis rest_contexts)

lemma delete_boms_run:
  assumes "good_pool (dom (boms m)) p"
  shows "delete_all delete_bom p m = (Ret (), m\<lparr>boms := boms m |` {a. Some a \<notin> set p}\<rparr>)"
  using bom_store.delete_all_good [OF TrueI assms] by (metis rest_boms)

lemma FacServiceAbstract_clean_run:
  assumes "serviceFactories m f = Some p" "good_pool (dom (contexts m)) p"
  shows "FacServiceAbstract_clean A f m
       = (Ret (), m\<lparr>serviceFactories := (serviceFactories m)(f \<mapsto> []),
                    contexts := contexts m |` {a. Some a \<notin> set p},
                    world := drop_slots A (pool_slots (contexts m) p) (world m)\<rparr>)"
  using assms by (simp add: FacServiceAbstract_clean_def bindM_load seqM_cases
      delete_contexts_run)

lemma FacBomAbstract_clean_run:
  assumes "bomFactories m f = Some p" "good_pool (dom (boms m)) p"
  shows "FacBomAbstract_clean f m
       = (Ret (), m\<lparr>bomFactories := (bomFactories m)(f \<mapsto> []),
                    boms := boms m |` {a. Some a \<notin> set p}\<rparr>)"
  using assms by (simp add: FacBomAbstract_clean_def bindM_load seqM_cases delete_boms_run)

lemma delete_service_factory_run:
  assumes "serviceFactories m f = Some p" "good_pool (dom (contexts m)) p"
  shows "delete_service_factory A f m
       = (Ret (), m\<lparr>ctxFactoryInstance := None,
                    serviceFactories := (serviceFactories m)(f := None),
                    contexts := contexts m |` {a. Some a \<notin> set p},
                    world := drop_slots A (pool_slots (contexts m) p) (world m)\<rparr>)"
  using assms by (simp add: delete_service_factory_def bindM_load seqM_cases
      FacServiceAbstract_clean_run)

lemma delete_bom_factory_run:
  assumes "bomFactories m f = Some p" "good_pool (dom (boms m)) p"
  shows "delete_bom_factory f m
       = (Ret (), m\<lparr>bomFactories := (bomFactories m)(f := None),
                    boms := boms m |` {a. Some a \<notin> set p}\<rparr>)"
  using assms by (simp add: delete_bom_factory_def seqM_cases FacBomAbstract_clean_run)

section \<open>Factories are object stores too\<close>

definition service_layer_ok :: "'x mem_scheme \<Rightarrow> bool" where
  "service_layer_ok m \<longleftrightarrow> pools_own (serviceFactories m) (contexts m) \<and>
     dom (serviceFactories m) = set_option (ctxFactoryInstance m)"

interpretation svc_store: object_store serviceFactories service_layer_ok
  "\<lambda>m. m\<lparr>serviceFactories := Map.empty, contexts := Map.empty, ctxFactoryInstance := None,
        world := undefined\<rparr>"
  "\<lambda>_. ()" "\<lambda>_ u. u"
  "delete_service_factory A :: addr \<Rightarrow> (('w, 'x) crs_state_scheme, unit) prog"
  for A
proof unfold_locales
  fix m :: "('w, 'x) crs_state_scheme" and f
  assume ok: "service_layer_ok m"
  then have own: "pools_own (serviceFactories m) (contexts m)"
    and single: "dom (serviceFactories m) = set_option (ctxFactoryInstance m)"
    by (simp_all add: service_layer_ok_def)
  show "f \<notin> dom (serviceFactories m) \<Longrightarrow>
    delete_service_factory A f m = (Halt (Undefined Dangling), m)"
    by (simp add: delete_service_factory_def bindM_load domIff)
  assume f: "f \<in> dom (serviceFactories m)"
  then obtain p where p: "serviceFactories m f = Some p" by blast
  have "dom (serviceFactories m) - {f} = {}"
    using f single by (cases "ctxFactoryInstance m") auto
  then show "\<exists>t. delete_service_factory A f m = (Ret (), t) \<and>
      service_layer_ok t \<and>
      serviceFactories t = (serviceFactories m)(f := None) \<and>
      t\<lparr>serviceFactories := Map.empty, contexts := Map.empty, ctxFactoryInstance := None,
        world := undefined\<rparr> =
      m\<lparr>serviceFactories := Map.empty, contexts := Map.empty, ctxFactoryInstance := None,
        world := undefined\<rparr> \<and> () = ()"
    by (simp add: delete_service_factory_run [OF p pools_own_good [OF own p]]
        pools_own_drop [OF own p] service_layer_ok_def)
qed

interpretation bomfac_store: object_store bomFactories
  "\<lambda>m. pools_own (bomFactories m) (boms m)"
  "\<lambda>m. m\<lparr>bomFactories := Map.empty, boms := Map.empty\<rparr>" "\<lambda>_. ()" "\<lambda>_ u. u"
  "delete_bom_factory :: addr \<Rightarrow> ('x mem_scheme, unit) prog"
proof unfold_locales
  fix m :: "'x mem_scheme" and f
  assume own: "pools_own (bomFactories m) (boms m)"
  show "f \<notin> dom (bomFactories m) \<Longrightarrow>
    delete_bom_factory f m = (Halt (Undefined Dangling), m)"
    by (simp add: delete_bom_factory_def FacBomAbstract_clean_def bindM_load seqM_cases domIff)
  assume "f \<in> dom (bomFactories m)"
  then obtain p where p: "bomFactories m f = Some p" by blast
  show "\<exists>t. delete_bom_factory f m = (Ret (), t) \<and>
      pools_own (bomFactories t) (boms t) \<and>
      bomFactories t = (bomFactories m)(f := None) \<and>
      t\<lparr>bomFactories := Map.empty, boms := Map.empty\<rparr> =
      m\<lparr>bomFactories := Map.empty, boms := Map.empty\<rparr> \<and> () = ()"
    by (simp add: delete_bom_factory_run [OF p pools_own_good [OF own p]]
        pools_own_drop [OF own p])
qed

text \<open>
  The loop over all factories of a layer empties the layer: no factory, no object.
\<close>

definition no_services :: "'x mem_scheme \<Rightarrow> 'x mem_scheme" where
  "no_services m = m\<lparr>serviceFactories := Map.empty, contexts := Map.empty,
                     ctxFactoryInstance := None\<rparr>"

definition no_boms :: "'x mem_scheme \<Rightarrow> 'x mem_scheme" where
  "no_boms m = m\<lparr>bomFactories := Map.empty, boms := Map.empty\<rparr>"

section \<open>The memory invariant\<close>

text \<open>
  A list of registered pointers that names exactly the live factories, each once.
\<close>

definition registered :: "pool \<Rightarrow> (addr \<rightharpoonup> pool) \<Rightarrow> bool" where
  "registered ps F \<longleftrightarrow> distinct ps \<and> set ps = Some ` dom F"

text \<open>
  At most one supervisor and it is the singleton; the factories it has registered are the
  live ones; the one service factory is the singleton \<open>FacSimcrsServiceContext\<close>.
\<close>

definition singletons_ok :: "'x mem_scheme \<Rightarrow> bool" where
  "singletons_ok m \<longleftrightarrow>
     (case supervisorInstance m of
        None \<Rightarrow> supervisors m = Map.empty \<and> serviceFactories m = Map.empty
                \<and> bomFactories m = Map.empty
      | Some s \<Rightarrow> \<exists>sv. supervisors m = [s \<mapsto> sv] \<and>
          registered (svcPool sv) (serviceFactories m) \<and>
          registered (bomPool sv) (bomFactories m))"

definition fresh_ok :: "'x mem_scheme \<Rightarrow> bool" where
  "fresh_ok m \<longleftrightarrow> (\<forall>a \<ge> nextAddr m. supervisors m a = None \<and> serviceFactories m a = None \<and>
     bomFactories m a = None \<and> contexts m a = None \<and> boms m a = None)"

definition mem_ok :: "'x mem_scheme \<Rightarrow> bool" where
  "mem_ok m \<longleftrightarrow> service_layer_ok m \<and>
     pools_own (bomFactories m) (boms m) \<and> singletons_ok m \<and> fresh_ok m"

lemma mem_ok_empty: "mem_ok empty_mem"
  by (simp add: mem_ok_def service_layer_ok_def singletons_ok_def fresh_ok_def
      empty_mem_def)

lemma mem_okD:
  assumes "mem_ok m"
  shows "service_layer_ok m" "pools_own (bomFactories m) (boms m)"
    and "singletons_ok m" "fresh_ok m"
  using assms by (simp_all add: mem_ok_def)

lemma registered_good: "registered ps F \<Longrightarrow> good_pool (dom F) ps"
  by (simp add: registered_def good_pool_def)

lemma registered_erases: "registered ps F \<Longrightarrow> F |` {a. Some a \<notin> set ps} = Map.empty"
  by (auto simp: registered_def restrict_map_def fun_eq_iff domIff image_iff)

lemma service_layer_okD:
  assumes "service_layer_ok m"
  shows "pools_own (serviceFactories m) (contexts m)"
    and "dom (serviceFactories m) = set_option (ctxFactoryInstance m)"
  using assms by (simp_all add: service_layer_ok_def)

text \<open>The pool of the one service factory, and the pointers of its contexts.\<close>

definition context_pool :: "'x mem_scheme \<Rightarrow> pool" where
  "context_pool m = (case ctxFactoryInstance m of None \<Rightarrow> []
     | Some f \<Rightarrow> (case serviceFactories m f of None \<Rightarrow> [] | Some p \<Rightarrow> p))"

lemma context_pool_update [simp]:
  "context_pool (s\<lparr>world := w\<rparr>) = context_pool s"
  "context_pool (m\<lparr>contexts := x\<rparr>) = context_pool m"
  by (simp_all add: context_pool_def cong: option.case_cong)

definition all_slots :: "'x mem_scheme \<Rightarrow> sptr list" where
  "all_slots m = pool_slots (contexts m) (context_pool m)"

lemma delete_services_run:
  assumes ok: "service_layer_ok m" and reg: "registered ps (serviceFactories m)"
  shows "delete_all (delete_service_factory A) ps m
    = (Ret (), (no_services m)\<lparr>world := drop_slots A (all_slots m) (world m)\<rparr>)"
proof (cases "ctxFactoryInstance m")
  case None
  with service_layer_okD [OF ok] have "serviceFactories m = Map.empty" "contexts m = Map.empty"
    by auto
  with None reg show ?thesis
    by (cases m) (simp add: registered_def all_slots_def context_pool_def no_services_def)
next
  case (Some f)
  with service_layer_okD(2) [OF ok] obtain p where p: "serviceFactories m f = Some p" by auto
  have only: "dom (serviceFactories m) = {f}" using service_layer_okD(2) [OF ok] Some by simp
  then have ps: "ps = [Some f]"
    using reg by (cases ps; cases "tl ps") (auto simp: registered_def)
  have svc: "(serviceFactories m)(f := None) = Map.empty" using only by (auto simp: fun_eq_iff)
  have own: "pools_own (serviceFactories m) (contexts m)" using service_layer_okD(1) [OF ok] .
  have "contexts m |` {a. Some a \<notin> set p} = Map.empty"
    using pools_own_drop [OF own p] by (simp add: svc)
  then show ?thesis
    using delete_service_factory_run [OF p pools_own_good [OF own p], of A] Some p
    by (simp add: ps seqM_cases svc all_slots_def context_pool_def no_services_def)
qed

lemma delete_bom_factories_run:
  assumes ok: "pools_own (bomFactories m) (boms m)" and reg: "registered ps (bomFactories m)"
  shows "delete_all delete_bom_factory ps m = (Ret (), no_boms m)"
proof -
  from bomfac_store.delete_all_good [OF ok registered_good [OF reg]] obtain t where
    t: "delete_all delete_bom_factory ps m = (Ret (), t)" "pools_own (bomFactories t) (boms t)"
      "bomFactories t = Map.empty"
      "t\<lparr>bomFactories := Map.empty, boms := Map.empty\<rparr>
       = m\<lparr>bomFactories := Map.empty, boms := Map.empty\<rparr>"
    by (auto simp: registered_erases [OF reg])
  from t(2,3) have "boms t = Map.empty" by simp
  with t(3,4) have "t = no_boms m"
    unfolding no_boms_def by (cases t, cases m) simp
  with t(1) show ?thesis by simp
qed

lemma no_fields [simp]:
  "supervisorInstance (no_services m) = supervisorInstance m"
  "supervisors (no_services m) = supervisors m"
  "bomFactories (no_services m) = bomFactories m" "boms (no_services m) = boms m"
  "serviceFactories (no_services m) = Map.empty" "contexts (no_services m) = Map.empty"
  "ctxFactoryInstance (no_services m) = None" "nextAddr (no_services m) = nextAddr m"
  "supervisorInstance (no_boms m) = supervisorInstance m"
  "supervisors (no_boms m) = supervisors m"
  "bomFactories (no_boms m) = Map.empty" "boms (no_boms m) = Map.empty"
  "serviceFactories (no_boms m) = serviceFactories m" "contexts (no_boms m) = contexts m"
  "ctxFactoryInstance (no_boms m) = ctxFactoryInstance m" "nextAddr (no_boms m) = nextAddr m"
  by (simp_all add: no_services_def no_boms_def)

text \<open>
  \<open>cleaned\<close> is what a whole clean-up leaves: nothing alive, no singleton, the counter of
  used addresses untouched, and every pointer of a context given up, in the order of the pool.
\<close>

definition cleaned :: "'w apis \<Rightarrow> ('w, 'x) crs_state_scheme \<Rightarrow> ('w, 'x) crs_state_scheme" where
  "cleaned A m = m\<lparr>supervisorInstance := None, ctxFactoryInstance := None,
     supervisors := Map.empty, serviceFactories := Map.empty, bomFactories := Map.empty,
     contexts := Map.empty, boms := Map.empty,
     world := drop_slots A (all_slots m) (world m)\<rparr>"

lemma mem_ok_cleaned: "mem_ok (cleaned A m)"
  by (simp add: cleaned_def mem_ok_def service_layer_ok_def singletons_ok_def fresh_ok_def)

lemma world_no [simp]: "world (no_services m) = world m" "world (no_boms m) = world m"
  by (simp_all add: no_services_def no_boms_def)

lemma all_slots_fields [simp]:
  "all_slots (m\<lparr>supervisors := x\<rparr>) = all_slots m" "all_slots (no_boms m) = all_slots m"
  by (simp_all add: all_slots_def context_pool_def no_boms_def cong: option.case_cong)

lemma cleanFactory_run:
  assumes "mem_ok m"
  shows "cleanFactory A m = (Ret (), cleaned A m)"
proof (cases "supervisorInstance m")
  case None
  from mem_okD [OF assms] None have "supervisors m = Map.empty" "serviceFactories m = Map.empty"
      "bomFactories m = Map.empty" "contexts m = Map.empty" "boms m = Map.empty"
      "ctxFactoryInstance m = None"
    by (auto simp: singletons_ok_def service_layer_ok_def)
  with None show ?thesis
    by (cases m) (simp add: cleanFactory_def cleaned_def all_slots_def context_pool_def)
next
  case (Some s)
  from mem_okD(3) [OF assms] Some obtain sv where
    sv: "supervisors m = [s \<mapsto> sv]" "registered (svcPool sv) (serviceFactories m)"
      "registered (bomPool sv) (bomFactories m)"
    by (auto simp: singletons_ok_def)
  have bom: "cleanBomLayer s m
      = (Ret (), (no_boms m)\<lparr>supervisors := [s \<mapsto> sv\<lparr>bomPool := []\<rparr>]\<rparr>)"
    using delete_bom_factories_run [OF mem_okD(2) [OF assms] sv(3)]
    by (simp add: cleanBomLayer_def bindM_load seqM_cases sv(1))
  let ?m = "(no_boms m)\<lparr>supervisors := [s \<mapsto> sv\<lparr>bomPool := []\<rparr>]\<rparr>"
  have "service_layer_ok ?m" "registered (svcPool sv) (serviceFactories ?m)"
    using mem_okD(1) [OF assms] sv(2) by (simp_all add: service_layer_ok_def)
  from delete_services_run [OF this]
  have svc: "cleanServiceLayer A s ?m = (Ret (), (no_services ?m)\<lparr>
      supervisors := [s \<mapsto> sv\<lparr>bomPool := [], svcPool := []\<rparr>],
      world := drop_slots A (all_slots m) (world m)\<rparr>)"
    by (simp add: cleanServiceLayer_def bindM_load seqM_cases)
  let ?n = "(no_services ?m)\<lparr>supervisors := [s \<mapsto> sv\<lparr>bomPool := [], svcPool := []\<rparr>],
      world := drop_slots A (all_slots m) (world m)\<rparr>"
  have "delete_supervisor A s ?n = (Ret (), ?n\<lparr>supervisors := Map.empty\<rparr>)"
    by (simp add: delete_supervisor_def cleanBomLayer_def cleanServiceLayer_def bindM_load
        seqM_cases)
  with bom svc Some show ?thesis
    by (cases m) (simp add: cleanFactory_def cleaned_def seqM_cases no_services_def no_boms_def)
qed

section \<open>Creation\<close>

lemma fresh_okD:
  assumes "fresh_ok m" "nextAddr m \<le> a"
  shows "supervisors m a = None" "serviceFactories m a = None" "bomFactories m a = None"
    "contexts m a = None" "boms m a = None"
  using assms by (simp_all add: fresh_ok_def)

lemma registered_add:
  "registered ps F \<Longrightarrow> F f = None \<Longrightarrow> registered (ps @ [Some f]) (F(f \<mapsto> q))"
  by (auto simp: registered_def)

lemma registered_upd:
  "registered ps F \<Longrightarrow> F f = Some p \<Longrightarrow> registered ps (F(f \<mapsto> q))"
  by (auto simp: registered_def)

lemma service_layer_new_factory:
  assumes "service_layer_ok m" "ctxFactoryInstance m = None"
  shows "contexts m = Map.empty" "serviceFactories m = Map.empty"
  using assms by (auto simp: service_layer_ok_def)

text \<open>
  From a good memory, \<open>instance()\<close> returns the one service factory, alive, created and
  registered with the supervisor when it was not there; no context changes.
\<close>

lemma instance_run:
  assumes ok: "mem_ok m"
  shows "\<exists>f t. FacSimcrsServiceContext_instance m = (Ret f, t) \<and> mem_ok t \<and>
     ctxFactoryInstance t = Some f \<and> f \<in> dom (serviceFactories t) \<and>
     contexts t = contexts m \<and> boms t = boms m \<and> mem.more t = mem.more m \<and>
     context_pool t = context_pool m"
proof (cases "ctxFactoryInstance m")
  case (Some f)
  with mem_okD(1) [OF ok] have "f \<in> dom (serviceFactories m)"
    by (simp add: service_layer_ok_def)
  with Some ok show ?thesis
    by (simp add: FacSimcrsServiceContext_instance_def)
next
  case None
  note empty = service_layer_new_factory [OF mem_okD(1) [OF ok] None]
  note fresh = fresh_okD [OF mem_okD(4) [OF ok]]
  show ?thesis
  proof (cases "supervisorInstance m")
    case None
    with mem_okD [OF ok] empty \<open>ctxFactoryInstance m = None\<close> show ?thesis
      by (auto simp: FacSimcrsServiceContext_instance_def FacSupervisor_instance_def
          registerServiceFactory_def bindM_cases seqM_cases mem_ok_def service_layer_ok_def
          singletons_ok_def fresh_ok_def registered_def pools_own_def in_pool_def
          context_pool_def)
  next
    case (Some s)
    with mem_okD(3) [OF ok] obtain sv where
      sv: "supervisors m = [s \<mapsto> sv]" "registered (svcPool sv) (serviceFactories m)"
        "registered (bomPool sv) (bomFactories m)"
      by (auto simp: singletons_ok_def)
    from fresh(1) [of s] sv(1) have "s < nextAddr m"
      by (metis fun_upd_same leI option.distinct(1))
    with Some None mem_okD [OF ok] empty sv show ?thesis
      by (auto simp: FacSimcrsServiceContext_instance_def FacSupervisor_instance_def
          registerServiceFactory_def bindM_cases seqM_cases mem_ok_def service_layer_ok_def
          singletons_ok_def fresh_ok_def registered_def pools_own_def in_pool_def
          context_pool_def)
  qed
qed

lemma instance_again:
  "ctxFactoryInstance m = Some f \<Longrightarrow> FacSimcrsServiceContext_instance m = (Ret f, m)"
  by (simp add: FacSimcrsServiceContext_instance_def)

definition with_new_context :: "addr \<Rightarrow> string \<Rightarrow> 'x mem_scheme \<Rightarrow> 'x mem_scheme" where
  "with_new_context f db m = m\<lparr>
     contexts := (contexts m)(nextAddr m \<mapsto> ServiceContext_make db),
     serviceFactories := (serviceFactories m)
       (f \<mapsto> the (serviceFactories m f) @ [Some (nextAddr m)]),
     nextAddr := Suc (nextAddr m)\<rparr>"

lemma create_run:
  assumes "f \<in> dom (serviceFactories m)"
  shows "FacSimcrsServiceContext_create f db m = (Ret (nextAddr m), with_new_context f db m)"
  using assms by (auto simp: FacSimcrsServiceContext_create_def bindM_cases seqM_cases
      with_new_context_def)

lemma context_pool_create:
  "ctxFactoryInstance m = Some f \<Longrightarrow> f \<in> dom (serviceFactories m) \<Longrightarrow>
   context_pool (with_new_context f db m) = context_pool m @ [Some (nextAddr m)]"
  by (auto simp: context_pool_def with_new_context_def)

lemma mem_ok_create:
  assumes ok: "mem_ok m" and f: "f \<in> dom (serviceFactories m)"
  shows "mem_ok (with_new_context f db m)"
proof -
  obtain p where p: "serviceFactories m f = Some p" using f by blast
  have c: "nextAddr m \<notin> dom (contexts m)"
    using fresh_okD(4) [OF mem_okD(4) [OF ok]] by (simp add: domIff)
  note own = pools_own_new_object [OF service_layer_okD(1) [OF mem_okD(1) [OF ok]] p c]
  have "service_layer_ok (with_new_context f db m)"
    using own service_layer_okD(2) [OF mem_okD(1) [OF ok]] f p
    by (simp add: service_layer_ok_def with_new_context_def insert_absorb)
  moreover have "singletons_ok (with_new_context f db m)"
    using mem_okD(3) [OF ok] f
    by (auto simp: singletons_ok_def with_new_context_def registered_upd split: option.splits)
  moreover have "fresh_ok (with_new_context f db m)"
    using mem_okD(4) [OF ok] f by (auto simp: fresh_ok_def with_new_context_def)
  ultimately show ?thesis
    using mem_okD(2) [OF ok] by (simp add: mem_ok_def with_new_context_def)
qed

section \<open>Properties\<close>

text \<open>
  The start of a process, no object alive; and a memory with one service factory, one context
  and a business object factory.
\<close>

definition fresh_state :: "'w \<Rightarrow> 'w crs_state" where
  "fresh_state w = \<lparr>supervisorInstance = None, ctxFactoryInstance = None,
     supervisors = Map.empty, serviceFactories = Map.empty, bomFactories = Map.empty,
     contexts = Map.empty, boms = Map.empty, nextAddr = 0, world = w\<rparr>"

definition small_mem :: "'w \<Rightarrow> 'w crs_state" where
  "small_mem w = \<lparr>supervisorInstance = Some 1, ctxFactoryInstance = Some 0,
     supervisors = [1 \<mapsto> \<lparr>bomPool = [Some 2], svcPool = [Some 0]\<rparr>],
     serviceFactories = [0 \<mapsto> [Some 4]], bomFactories = [2 \<mapsto> [Some 3]],
     contexts = [4 \<mapsto> ServiceContext_make ''1P''], boms = [3 \<mapsto> ()], nextAddr = 5,
     world = w\<rparr>"

lemma mem_ok_small: "mem_ok (small_mem w)"
  by (auto simp: small_mem_def mem_ok_def service_layer_ok_def singletons_ok_def fresh_ok_def
      registered_def pools_own_def in_pool_def)

text \<open>
  C20. The clean-up of the factories always returns from a memory in which the pools own
  their objects, although it deletes through three levels of pointers and its destructors
  clean again what was cleaned before: no object is deleted twice, and afterwards no
  supervisor, factory, context or business object is left and both singletons are NULL. A
  second clean-up returns as well and changes nothing.
\<close>

theorem cleanFactory_frees_all:
  assumes "mem_ok m"
  shows "cleanFactory A m = (Ret (), cleaned A m) \<and>
    cleanFactory A (cleaned A m) = (Ret (), cleaned A m)"
proof
  show "cleanFactory A m = (Ret (), cleaned A m)" by (rule cleanFactory_run [OF assms])
  have "cleaned A (cleaned A m) = cleaned A m"
    by (simp add: cleaned_def all_slots_def context_pool_def)
  with cleanFactory_run [OF mem_ok_cleaned]
  show "cleanFactory A (cleaned A m) = (Ret (), cleaned A m)" by metis
qed

theorem cleanFactory_frees_all_witness:
  "cleanFactory (echo_apis (\<lambda>_. True) []) (small_mem ([], 0))
     = (Ret (), (fresh_state ([], 0))\<lparr>nextAddr := 5\<rparr>)"
  using cleanFactory_frees_all [OF mem_ok_small, of "echo_apis (\<lambda>_. True) []"]
  by (simp add: cleaned_def small_mem_def fresh_state_def all_slots_def context_pool_def
      pool_slots_def ServiceContext_make_def context_slots_def drop_slots_def echo_apis_def)

text \<open>
  C39. The clean-up of one service factory returns exactly when its pool holds live contexts
  only, none twice and no NULL; it then deletes exactly the contexts of the pool and empties
  it. Otherwise it stops on an assertion or a double delete.
\<close>

theorem service_pool_clean_iff:
  assumes "serviceFactories m f = Some p"
  shows "(if good_pool (dom (contexts m)) p
     then FacServiceAbstract_clean A f m
       = (Ret (), m\<lparr>serviceFactories := (serviceFactories m)(f \<mapsto> []),
                    contexts := contexts m |` {a. Some a \<notin> set p},
                    world := drop_slots A (pool_slots (contexts m) p) (world m)\<rparr>)
     else is_halt (fst (FacServiceAbstract_clean A f m)))"
proof (cases "good_pool (dom (contexts m)) p")
  case True
  then show ?thesis using FacServiceAbstract_clean_run [OF assms] by simp
next
  case False
  from ctx_store.delete_all_bad [OF TrueI this, of A] False assms show ?thesis
    by (cases "delete_all (delete_context A) p m")
      (auto simp: FacServiceAbstract_clean_def bindM_load seqM_cases split: outcome.split)
qed

theorem service_pool_clean_iff_witness:
  "is_halt (fst (FacServiceAbstract_clean (echo_apis (\<lambda>_. True) []) 0
     ((small_mem ([], 0))\<lparr>serviceFactories := [0 \<mapsto> [Some 4, Some 4]]\<rparr>)))"
  using service_pool_clean_iff [of "(small_mem ([], 0))\<lparr>serviceFactories := [0 \<mapsto> [Some 4, Some 4]]\<rparr>"
      0 "[Some 4, Some 4]" "echo_apis (\<lambda>_. True) []"]
  by (simp add: small_mem_def)

text \<open>
  The same for a factory of business objects.
\<close>

lemma bom_pool_clean_iff:
  assumes "bomFactories m f = Some p"
  shows "(if good_pool (dom (boms m)) p
     then FacBomAbstract_clean f m
       = (Ret (), m\<lparr>bomFactories := (bomFactories m)(f \<mapsto> []),
                    boms := boms m |` {a. Some a \<notin> set p}\<rparr>)
     else is_halt (fst (FacBomAbstract_clean f m)))"
proof (cases "good_pool (dom (boms m)) p")
  case True
  then show ?thesis using FacBomAbstract_clean_run [OF assms] by simp
next
  case False
  from bom_store.delete_all_bad [OF TrueI this] False assms show ?thesis
    by (cases "delete_all delete_bom p m")
      (auto simp: FacBomAbstract_clean_def bindM_load seqM_cases split: outcome.split)
qed

text \<open>
  \<open>FacSimcrsServiceContext::instance()\<close> always returns the one factory: it is alive and
  registered, calling it again gives the same object and changes nothing, and no context or
  business object is touched. This holds after a clean-up of everything as well.
\<close>

lemma instance_is_singleton:
  assumes "mem_ok m"
  shows "\<exists>f t. FacSimcrsServiceContext_instance m = (Ret f, t) \<and> mem_ok t \<and>
     serviceFactories t f \<noteq> None \<and> ctxFactoryInstance t = Some f \<and>
     contexts t = contexts m \<and> boms t = boms m \<and>
     FacSimcrsServiceContext_instance t = (Ret f, t)"
  using instance_run [OF assms] instance_again by (metis domIff)

text \<open>
  \<open>create\<close> on a live factory makes one new context, with the CRS code it is given and no
  handler, at an address no live context has, and registers it in the pool of the factory;
  the factories' memory stays well formed, so that a later clean-up will delete it.
\<close>

lemma create_registers:
  assumes "mem_ok m" and "serviceFactories m f = Some p"
  shows "\<exists>a t. FacSimcrsServiceContext_create f crs m = (Ret a, t) \<and> mem_ok t \<and>
     contexts m a = None \<and> contexts t = (contexts m)(a \<mapsto> ServiceContext_make crs) \<and>
     serviceFactories t = (serviceFactories m)(f \<mapsto> p @ [Some a])"
proof -
  have f: "f \<in> dom (serviceFactories m)" using assms(2) by blast
  have "contexts m (nextAddr m) = None"
    using fresh_okD(4) [OF mem_okD(4) [OF assms(1)]] by simp
  with create_run [OF f, of crs] mem_ok_create [OF assms(1) f, of crs] show ?thesis
    by (intro exI [of _ "nextAddr m"] exI [of _ "with_new_context f crs m"])
      (simp add: with_new_context_def assms(2))
qed

end
