(* ===== verification/CRS_Service.thy ===== *)
theory CRS_Service
  imports CRS_Memory
begin

text \<open>
  The life of a \<open>SIMCRS_Service\<close> object (\<open>simcrs/service/SIMCRS_Service.cpp\<close>): its three
  public constructors, the private initialisation steps they chain, and its destructor. The
  object is one pointer, to a context that the factory owns. The process state is the memory
  of the factories together with the state \<open>'w\<close> of the external components. Shared pointers
  in local variables and in the context are counted there: copying and giving up a pointer are
  effects on that state, also on the way of an exception.
\<close>

section \<open>Process state\<close>

record simcrs_service =
  simcrsServiceContext :: "addr option"

type_synonym SIMCRS_ServicePtr_T = "simcrs_service option"

text \<open>A call to an external component runs on the \<open>world\<close> part of the state.\<close>

definition on_world :: "('w, 'a) prog \<Rightarrow> (('w, 'x) crs_state_scheme, 'a) prog" where
  "on_world m s = (case m (world s) of (r, w) \<Rightarrow> (r, s\<lparr>world := w\<rparr>))"

text \<open>
  The same for a call with a reference parameter, whose value is the first component of the
  state; a step that does not touch that parameter; and a local variable passed by reference.
\<close>

definition on_world_ref ::
  "('v \<times> 'w, 'a) prog \<Rightarrow> ('v \<times> ('w, 'x) crs_state_scheme, 'a) prog" where
  "on_world_ref m = (\<lambda>(v, s). case m (v, world s) of (r, v', w) \<Rightarrow> (r, v', s\<lparr>world := w\<rparr>))"

definition beside_ref :: "('s, 'a) prog \<Rightarrow> ('v \<times> 's, 'a) prog" where
  "beside_ref m = (\<lambda>(v, s). case m s of (r, s') \<Rightarrow> (r, v, s'))"

definition with_local :: "'v \<Rightarrow> ('v \<times> 's, unit) prog \<Rightarrow> ('s, 'v) prog" where
  "with_local v m = (\<lambda>s. case m (v, s) of
      (Ret _, v', s') \<Rightarrow> (Ret v', s')
    | (Throw e, v', s') \<Rightarrow> (Throw e, s')
    | (Halt b, v', s') \<Rightarrow> (Halt b, s'))"

text \<open>\<open>assert (_simcrsServiceContext != NULL)\<close> and the dereference after it.\<close>

definition asserted_context ::
  "simcrs_service \<Rightarrow> ('x mem_scheme, addr \<times> service_context) prog" where
  "asserted_context this = (case simcrsServiceContext this of
      None \<Rightarrow> halt AssertionFailure
    | Some a \<Rightarrow> bindM (load contexts a) (\<lambda>c. ret (a, c)))"

text \<open>A write through the reference to the context.\<close>

definition update_context ::
  "addr \<Rightarrow> (service_context \<Rightarrow> service_context) \<Rightarrow> ('x mem_scheme, unit) prog" where
  "update_context a f = bindM (load contexts a) (\<lambda>c.
     modS (\<lambda>m. m\<lparr>contexts := (contexts m)(a \<mapsto> f c)\<rparr>))"

text \<open>
  The end of a block, reached by a return or by an exception: an effect on the outside world,
  and the special case of a local shared pointer, which is given up. A stopped run leaves no
  block.
\<close>

definition finally_world ::
  "('w \<Rightarrow> 'w) \<Rightarrow> (('w, 'x) crs_state_scheme, 'a) prog \<Rightarrow> (('w, 'x) crs_state_scheme, 'a) prog"
where
  "finally_world f = finally_do (\<lambda>s. s\<lparr>world := f (world s)\<rparr>)"

definition with_sptr ::
  "'w apis \<Rightarrow> sptr \<Rightarrow> (('w, 'x) crs_state_scheme, 'a) prog \<Rightarrow> (('w, 'x) crs_state_scheme, 'a) prog"
where
  "with_sptr A p = finally_world (give_sptr A p)"

text \<open>A shared pointer that is a copy: a parameter by value, the result of a getter.\<close>

definition with_copy ::
  "'w apis \<Rightarrow> sptr \<Rightarrow> (('w, 'x) crs_state_scheme, 'a) prog \<Rightarrow> (('w, 'x) crs_state_scheme, 'a) prog"
where
  "with_copy A p m = seqM (touch_world (take_sptr A p)) (with_sptr A p m)"

text \<open>
  A setter of the context has its pointer by value and assigns it: the references, then the
  member.
\<close>

definition store_sptr ::
  "'w apis \<Rightarrow> addr \<Rightarrow> sptr \<Rightarrow> sptr \<Rightarrow> (service_context \<Rightarrow> service_context)
   \<Rightarrow> (('w, 'x) crs_state_scheme, unit) prog" where
  "store_sptr A a old p f = with_copy A p
     (seqM (touch_world (assign_sptr A old p)) (update_context a f))"

section \<open>Initialisation steps\<close>

definition initServiceContext :: "CRSCode_T \<Rightarrow> ('x mem_scheme, simcrs_service) prog" where
  "initServiceContext iCRSCode =
     bindM FacSimcrsServiceContext_instance (\<lambda>fac.
     bindM (FacSimcrsServiceContext_create fac iCRSCode) (\<lambda>a.
     ret \<lparr>simcrsServiceContext = Some a\<rparr>))"

definition addStdAirService ::
  "'w apis \<Rightarrow> simcrs_service \<Rightarrow> sptr \<Rightarrow> bool \<Rightarrow> (('w, 'x) crs_state_scheme, unit) prog" where
  "addStdAirService A this ptr own = with_copy A ptr (bindM (asserted_context this) (\<lambda>(a, c).
     store_sptr A a (stdairService c) ptr (setSTDAIR_Service ptr own)))"

definition addSEVMGRService ::
  "'w apis \<Rightarrow> simcrs_service \<Rightarrow> sptr \<Rightarrow> bool \<Rightarrow> (('w, 'x) crs_state_scheme, unit) prog" where
  "addSEVMGRService A this ptr own = with_copy A ptr (bindM (asserted_context this) (\<lambda>(a, c).
     store_sptr A a (sevmgrService c) ptr (setSEVMGR_Service ptr own)))"

definition initStdAirService ::
  "'w apis \<Rightarrow> log_params \<Rightarrow> (('w, 'x) crs_state_scheme, sptr) prog" where
  "initStdAirService A iLogParams =
     bindM (on_world (stdair_make (stdairA A) iLogParams)) (\<lambda>x. ret (Some x))"

definition initStdAirService_db ::
  "'w apis \<Rightarrow> log_params \<Rightarrow> db_params \<Rightarrow> (('w, 'x) crs_state_scheme, sptr) prog" where
  "initStdAirService_db A iLogParams iDBParams =
     bindM (on_world (stdair_make_db (stdairA A) iLogParams iDBParams)) (\<lambda>x. ret (Some x))"

definition initAIRTSPService ::
  "'w apis \<Rightarrow> simcrs_service \<Rightarrow> (('w, 'x) crs_state_scheme, unit) prog" where
  "initAIRTSPService A this = bindM (asserted_context this) (\<lambda>(a, c).
     let lSTDAIR_Service_ptr = getSTDAIR_ServicePtr c
     in with_copy A lSTDAIR_Service_ptr
         (bindM (on_world (airtsp_make (airtspA A) lSTDAIR_Service_ptr)) (\<lambda>x.
          with_sptr A (Some x)
           (store_sptr A a (airtspService c) (Some x) (setAIRTSP_Service (Some x))))))"

definition initSIMFQTService ::
  "'w apis \<Rightarrow> simcrs_service \<Rightarrow> (('w, 'x) crs_state_scheme, unit) prog" where
  "initSIMFQTService A this = bindM (asserted_context this) (\<lambda>(a, c).
     let lSTDAIR_Service_ptr = getSTDAIR_ServicePtr c
     in with_copy A lSTDAIR_Service_ptr
         (bindM (on_world (simfqt_make (simfqtA A) lSTDAIR_Service_ptr)) (\<lambda>x.
          with_sptr A (Some x)
           (store_sptr A a (simfqtService c) (Some x) (setSIMFQT_Service (Some x))))))"

definition initAIRINVService ::
  "'w apis \<Rightarrow> simcrs_service \<Rightarrow> (('w, 'x) crs_state_scheme, unit) prog" where
  "initAIRINVService A this = bindM (asserted_context this) (\<lambda>(a, c).
     let lSTDAIR_Service_ptr = getSTDAIR_ServicePtr c;
         ownSEVMGRService = getOwnSEVMGRServiceFlag c
     in with_copy A lSTDAIR_Service_ptr
         (bindM (if ownSEVMGRService = False
                 then let lSEVMGR_Service_ptr = getSEVMGR_ServicePtr c
                      in with_copy A lSEVMGR_Service_ptr
                          (seqM (assertM (lSEVMGR_Service_ptr \<noteq> None))
                            (on_world (airinv_make_sevmgr (airinvA A) lSTDAIR_Service_ptr
                                         lSEVMGR_Service_ptr)))
                 else on_world (airinv_make (airinvA A) lSTDAIR_Service_ptr)) (\<lambda>x.
          with_sptr A (Some x) (seqM (assertM (Some x \<noteq> None))
            (store_sptr A a (airinvService c) (Some x) (setAIRINV_Service (Some x)))))))"

definition initSimcrsService :: "simcrs_service \<Rightarrow> ('s, unit) prog" where
  "initSimcrsService this = ret ()"

text \<open>The four steps that every public constructor ends with.\<close>

definition init_handlers ::
  "'w apis \<Rightarrow> simcrs_service \<Rightarrow> (('w, 'x) crs_state_scheme, simcrs_service) prog" where
  "init_handlers A this =
     seqM (initSIMFQTService A this)
    (seqM (initAIRTSPService A this)
    (seqM (initAIRINVService A this)
    (seqM (initSimcrsService this) (ret this))))"

section \<open>Constructors and destructor\<close>

definition SIMCRS_Service_default :: "('s, simcrs_service) prog" where
  "SIMCRS_Service_default = halt AssertionFailure"

definition SIMCRS_Service_copy :: "simcrs_service \<Rightarrow> ('s, simcrs_service) prog" where
  "SIMCRS_Service_copy iService = halt AssertionFailure"

definition SIMCRS_Service_log ::
  "'w apis \<Rightarrow> log_params \<Rightarrow> CRSCode_T \<Rightarrow> (('w, 'x) crs_state_scheme, simcrs_service) prog" where
  "SIMCRS_Service_log A iLogParams iCRSCode =
     bindM (initStdAirService A iLogParams) (\<lambda>lSTDAIR_Service_ptr.
     with_sptr A lSTDAIR_Service_ptr
    (bindM (initServiceContext iCRSCode) (\<lambda>this.
     seqM (addStdAirService A this lSTDAIR_Service_ptr True)
     (init_handlers A this))))"

definition SIMCRS_Service_db ::
  "'w apis \<Rightarrow> log_params \<Rightarrow> db_params \<Rightarrow> CRSCode_T
   \<Rightarrow> (('w, 'x) crs_state_scheme, simcrs_service) prog" where
  "SIMCRS_Service_db A iLogParams iDBParams iCRSCode =
     bindM (initStdAirService_db A iLogParams iDBParams) (\<lambda>lSTDAIR_Service_ptr.
     with_sptr A lSTDAIR_Service_ptr
    (bindM (initServiceContext iCRSCode) (\<lambda>this.
     seqM (addStdAirService A this lSTDAIR_Service_ptr True)
     (init_handlers A this))))"

definition SIMCRS_Service_shared ::
  "'w apis \<Rightarrow> sptr \<Rightarrow> sptr \<Rightarrow> CRSCode_T \<Rightarrow> (('w, 'x) crs_state_scheme, simcrs_service) prog" where
  "SIMCRS_Service_shared A ioSTDAIR_Service_ptr ioSEVMGR_Service_ptr iCRSCode =
     with_copy A ioSTDAIR_Service_ptr (with_copy A ioSEVMGR_Service_ptr
    (bindM (initServiceContext iCRSCode) (\<lambda>this.
     seqM (addStdAirService A this ioSTDAIR_Service_ptr False)
    (seqM (addSEVMGRService A this ioSEVMGR_Service_ptr False)
     (init_handlers A this)))))"

definition finalise ::
  "'w apis \<Rightarrow> simcrs_service \<Rightarrow> (('w, 'x) crs_state_scheme, unit) prog" where
  "finalise A this = bindM (asserted_context this) (\<lambda>(a, c). modS (\<lambda>s.
     case reset (sptr_release (sharedA A)) c (world s) of
       (c', w) \<Rightarrow> s\<lparr>contexts := (contexts s)(a \<mapsto> c'), world := w\<rparr>))"

definition SIMCRS_Service_destroy ::
  "'w apis \<Rightarrow> simcrs_service \<Rightarrow> (('w, 'x) crs_state_scheme, unit) prog" where
  "SIMCRS_Service_destroy A this = finalise A this"

text \<open>A service in a local variable: its destructor runs on both ways out of the block.\<close>

definition with_service ::
  "'w apis \<Rightarrow> simcrs_service \<Rightarrow> (('w, 'x) crs_state_scheme, 'a) prog
   \<Rightarrow> (('w, 'x) crs_state_scheme, 'a) prog" where
  "with_service A this body = (\<lambda>s. case body s of
      (Ret x, t) \<Rightarrow> seqM (SIMCRS_Service_destroy A this) (ret x) t
    | (Throw e, t) \<Rightarrow> seqM (SIMCRS_Service_destroy A this) (raise e) t
    | (Halt b, t) \<Rightarrow> (Halt b, t))"

section \<open>Lemmas\<close>

lemma on_world_Ret_iff [simp]:
  "on_world m s = (Ret x, t) \<longleftrightarrow> (\<exists>w. m (world s) = (Ret x, w) \<and> t = s\<lparr>world := w\<rparr>)"
  by (auto simp: on_world_def split: prod.split)

lemma on_world_eq: "m (world s) = (r, w) \<Longrightarrow> on_world m s = (r, s\<lparr>world := w\<rparr>)"
  by (simp add: on_world_def)

lemma keeps_on_world [keeps_intros]: "(\<And>s w. g (s\<lparr>world := w\<rparr>) = g s) \<Longrightarrow> keeps g (on_world m)"
  by (simp add: keeps_def on_world_def split: prod.split)

lemma asserted_context_simps [simp, crs_prog]:
  "simcrsServiceContext this = None \<Longrightarrow> asserted_context this = halt AssertionFailure"
  "simcrsServiceContext this = Some a \<Longrightarrow> contexts s a = Some c \<Longrightarrow>
     asserted_context this s = (Ret (a, c), s)"
  "simcrsServiceContext this = Some a \<Longrightarrow> contexts s a = None \<Longrightarrow>
     asserted_context this s = (Halt (Undefined Dangling), s)"
  by (simp_all add: asserted_context_def bindM_load)

lemma update_context_simps [simp, crs_prog]:
  "contexts s a = Some c \<Longrightarrow>
     update_context a f s = (Ret (), s\<lparr>contexts := (contexts s)(a \<mapsto> f c)\<rparr>)"
  "contexts s a = None \<Longrightarrow> update_context a f s = (Halt (Undefined Dangling), s)"
  by (simp_all add: update_context_def bindM_load)

lemma finally_world_Ret_iff [simp]:
  "finally_world f m s = (Ret x, t) \<longleftrightarrow> (\<exists>u. m s = (Ret x, u) \<and> t = u\<lparr>world := f (world u)\<rparr>)"
  by (simp add: finally_world_def)

lemma finally_world_outcome [simp]: "fst (finally_world f m s) = fst (m s)"
  by (simp add: finally_world_def)

lemma finally_world_any:
  assumes "finally_world f m s = (r, t)"
  obtains u w where "m s = (r, u)" "t = u\<lparr>world := w\<rparr>"
proof -
  obtain q u where u: "m s = (q, u)" by fastforce
  have "q = r" using assms u finally_world_outcome [of f m s] by simp
  moreover have "t = u\<lparr>world := world t\<rparr>"
    using assms u by (cases q) (auto simp: finally_world_def finally_do_def)
  ultimately show thesis using u that by blast
qed

lemma with_sptr_any:
  assumes "with_sptr A p m s = (r, t)"
  obtains u w where "m s = (r, u)" "t = u\<lparr>world := w\<rparr>"
  using assms unfolding with_sptr_def by (rule finally_world_any)

lemma with_sptr_Ret_iff [simp]:
  "with_sptr A p m s = (Ret x, t) \<longleftrightarrow> (\<exists>u. m s = (Ret x, u) \<and>
     t = u\<lparr>world := give_sptr A p (world u)\<rparr>)"
  by (simp add: with_sptr_def)

lemma with_sptr_outcome [simp]: "fst (with_sptr A p m s) = fst (m s)"
  by (simp add: with_sptr_def)

lemma with_copy_run:
  "with_copy A p m s = with_sptr A p m (s\<lparr>world := take_sptr A p (world s)\<rparr>)"
  by (simp add: with_copy_def seqM_cases)

lemma with_copy_Ret_iff [simp]:
  "with_copy A p m s = (Ret x, t) \<longleftrightarrow> (\<exists>u. m (s\<lparr>world := take_sptr A p (world s)\<rparr>) = (Ret x, u) \<and>
     t = u\<lparr>world := give_sptr A p (world u)\<rparr>)"
  by (simp add: with_copy_run)

lemma with_copy_outcome [simp]:
  "fst (with_copy A p m s) = fst (m (s\<lparr>world := take_sptr A p (world s)\<rparr>))"
  by (simp add: with_copy_run)

lemma with_copy_any:
  assumes "with_copy A p m s = (r, t)"
  obtains u w v where "m (s\<lparr>world := w\<rparr>) = (r, u)" "t = u\<lparr>world := v\<rparr>"
  using assms unfolding with_copy_run by (metis with_sptr_any)

lemma with_copy_on_world: "with_copy A p (on_world m) = on_world (held_sptr A p m)"
  by (rule ext) (simp add: with_copy_run with_sptr_def finally_world_def finally_do_def
      on_world_def held_sptr_def split: prod.split outcome.split)

lemma keeps_finally_world [keeps_intros]:
  "keeps g m \<Longrightarrow> (\<And>s w. g (s\<lparr>world := w\<rparr>) = g s) \<Longrightarrow> keeps g (finally_world f m)"
  unfolding finally_world_def by (rule keeps_finally_do)

lemma keeps_with_sptr [keeps_intros]:
  "keeps g m \<Longrightarrow> (\<And>s w. g (s\<lparr>world := w\<rparr>) = g s) \<Longrightarrow> keeps g (with_sptr A p m)"
  unfolding with_sptr_def by (rule keeps_finally_world)

lemma keeps_with_copy [keeps_intros]:
  "keeps g m \<Longrightarrow> (\<And>s w. g (s\<lparr>world := w\<rparr>) = g s) \<Longrightarrow> keeps g (with_copy A p m)"
  unfolding with_copy_def by (intro keeps_intros)

lemma with_service_Ret_iff:
  "with_service A this body s = (Ret x, t) \<longleftrightarrow>
   (\<exists>u. body s = (Ret x, u) \<and> SIMCRS_Service_destroy A this u = (Ret (), t))"
  by (auto simp: with_service_def seqM_cases split: prod.splits outcome.splits)

lemma store_sptr_run [simp, crs_prog]:
  "contexts s a = Some c \<Longrightarrow> store_sptr A a old p f s
     = (Ret (), s\<lparr>contexts := (contexts s)(a \<mapsto> f c),
                  world := pass_sptr A p (assign_sptr A old p) (world s)\<rparr>)"
  by (simp add: store_sptr_def seqM_cases pass_sptr_def)

lemma give_echo [simp]: "give_sptr (echo_apis ok sols) p w = w"
  by (cases p) (simp_all add: echo_apis_def)

lemma take_echo [simp]: "take_sptr (echo_apis ok sols) p w = w"
  by (cases p) (simp_all add: echo_apis_def)

lemma assign_echo [simp]: "assign_sptr (echo_apis ok sols) old p w = w"
  by (simp add: assign_sptr_def)

lemma release_echo [simp]: "sptr_release (sharedA (echo_apis ok sols)) = (\<lambda>_ w. w)"
  by (simp add: echo_apis_def)

lemma drop_slots_echo [simp]: "drop_slots (echo_apis ok sols) ps w = w"
  by (simp add: drop_slots_def)

lemma drop_idle [simp]: "drop_sptr (\<lambda>_ w. w) p w = w"
  by (simp add: drop_sptr_def split: option.split)

lemma mem_ok_world [simp]: "mem_ok (s\<lparr>world := w\<rparr>) \<longleftrightarrow> mem_ok s"
  by (simp add: mem_ok_def service_layer_ok_def singletons_ok_def fresh_ok_def
      cong: option.case_cong)

lemma pools_own_update:
  "B a = Some c \<Longrightarrow> pools_own F (B(a \<mapsto> d)) \<longleftrightarrow> pools_own F B"
  unfolding pools_own_def by (simp add: insert_absorb domI)

lemma mem_ok_update_context:
  "contexts m a = Some c \<Longrightarrow> mem_ok (m\<lparr>contexts := (contexts m)(a \<mapsto> d)\<rparr>) \<longleftrightarrow> mem_ok m"
  by (auto simp: mem_ok_def service_layer_ok_def singletons_ok_def fresh_ok_def
      pools_own_update split: if_splits cong: option.case_cong)

lemma mem_ok_update_world:
  "mem_ok m \<Longrightarrow> contexts m a = Some c \<Longrightarrow>
   mem_ok (m\<lparr>world := w, contexts := (contexts m)(a \<mapsto> d)\<rparr>)"
  using mem_ok_update_context [of "m\<lparr>world := w\<rparr>" a c d] by simp

text \<open>
  A new service context: from a good memory \<open>initServiceContext\<close> always returns, with a
  context at an address that was not in use, and changes no other context.
\<close>

lemma initServiceContext_run:
  assumes "mem_ok s"
  shows "\<exists>a t. initServiceContext crs s = (Ret \<lparr>simcrsServiceContext = Some a\<rparr>, t) \<and>
     mem_ok t \<and> contexts s a = None \<and>
     contexts t = (contexts s)(a \<mapsto> ServiceContext_make crs) \<and> mem.more t = mem.more s \<and>
     context_pool t = context_pool s @ [Some a]"
proof -
  from instance_run [OF assms] obtain f u where
    u: "FacSimcrsServiceContext_instance s = (Ret f, u)" "mem_ok u"
      "f \<in> dom (serviceFactories u)" "contexts u = contexts s" "mem.more u = mem.more s"
      "ctxFactoryInstance u = Some f" "context_pool u = context_pool s"
    by blast
  have "contexts u (nextAddr u) = None"
    using fresh_okD(4) [OF mem_okD(4) [OF u(2)]] by simp
  moreover have "initServiceContext crs s
      = (Ret \<lparr>simcrsServiceContext = Some (nextAddr u)\<rparr>, with_new_context f crs u)"
    by (simp add: initServiceContext_def bindM_cases u(1) create_run [OF u(3)])
  ultimately show ?thesis
    using mem_ok_create [OF u(2,3), of crs] context_pool_create [OF u(6,3), of crs] u(4,5,7)
    by (auto simp: with_new_context_def)
qed

text \<open>
  The handlers of a context, as \<open>init_handlers\<close> leaves them: everything else is as it was.
\<close>

definition with_handlers :: "svc \<Rightarrow> svc \<Rightarrow> svc \<Rightarrow> service_context \<Rightarrow> service_context" where
  "with_handlers fq ts ai c =
     c\<lparr>simfqtService := Some fq, airtspService := Some ts, airinvService := Some ai\<rparr>"

section \<open>A sample process\<close>

text \<open>
  The start of a process (no object alive), and the state after one service has been
  constructed in the sample environment. The witnesses of the properties use them.
\<close>

definition sample_log :: log_params where
  "sample_log = \<lparr>logLevel = ''DEBUG'', logStream = ''simcrs.log''\<rparr>"

definition sample_db :: db_params where
  "sample_db = \<lparr>dbUser = ''dsim'', dbPasswd = ''dsim'', dbHost = ''localhost'',
     dbPort = ''3306'', dbName = ''sim_dsim''\<rparr>"

definition sample_service :: simcrs_service where
  "sample_service = \<lparr>simcrsServiceContext = Some 2\<rparr>"

definition sample_context :: "bool \<Rightarrow> service_context" where
  "sample_context own = \<lparr>stdairService = Some 0, ownStdairService = Some own,
     sevmgrService = (if own then None else Some 9), ownSEVMGRService = own,
     airtspService = Some 2, airinvService = Some 3, simfqtService = Some 1, CRSCode = ''1P''\<rparr>"

definition sample_state :: "bool \<Rightarrow> echo crs_state" where
  "sample_state own = \<lparr>supervisorInstance = Some 1, ctxFactoryInstance = Some 0,
     supervisors = [1 \<mapsto> \<lparr>bomPool = [], svcPool = [Some 0]\<rparr>],
     serviceFactories = [0 \<mapsto> [Some 2]], bomFactories = Map.empty,
     contexts = [2 \<mapsto> sample_context own], boms = Map.empty, nextAddr = 3,
     world = ((if own then [(''stdair'', 0)] else []) @
              [(''simfqt'', 1), (''airtsp'', 2), (''airinv'', 3)], 4)\<rparr>"

lemmas sample_defs = fresh_state_def sample_service_def sample_context_def sample_state_def

lemma sample_pointer [simp]: "simcrsServiceContext sample_service = Some 2"
  by (simp add: sample_service_def)

lemma sample_alive [simp]: "contexts (sample_state own) 2 = Some (sample_context own)"
  by (simp add: sample_state_def)

lemma sample_complete [simp]: "context_complete (sample_context own)"
  by (simp add: sample_context_def context_complete_def)

lemma mem_ok_fresh [simp]: "mem_ok (fresh_state w)"
  by (simp add: fresh_state_def mem_ok_def service_layer_ok_def singletons_ok_def fresh_ok_def)

lemma mem_ok_sample [simp]: "mem_ok (sample_state own)"
  by (auto simp: sample_state_def mem_ok_def service_layer_ok_def singletons_ok_def
      fresh_ok_def registered_def pools_own_def in_pool_def)

lemmas init_defs = init_handlers_def initSIMFQTService_def initAIRTSPService_def
  initAIRINVService_def initSimcrsService_def initServiceContext_def addStdAirService_def
  addSEVMGRService_def initStdAirService_def initStdAirService_db_def

lemmas creation_defs = FacSimcrsServiceContext_instance_def FacSupervisor_instance_def
  registerServiceFactory_def FacSimcrsServiceContext_create_def ServiceContext_make_def

lemma sample_run:
  "SIMCRS_Service_log (echo_apis ok sols) lp ''1P'' (fresh_state ([], 0))
     = (Ret sample_service, sample_state True)"
  "SIMCRS_Service_db (echo_apis ok sols) lp dp ''1P'' (fresh_state ([], 0))
     = (Ret sample_service, sample_state True)"
  "SIMCRS_Service_shared (echo_apis ok sols) (Some 0) (Some 9) ''1P'' (fresh_state ([], 1))
     = (Ret sample_service, sample_state False)"
  by (simp_all add: SIMCRS_Service_log_def SIMCRS_Service_db_def SIMCRS_Service_shared_def
      init_defs creation_defs sample_defs echo_apis_def bindM_cases seqM_cases on_world_def
      setter_defs getter_defs Let_def load_def numeral_2_eq_2 numeral_3_eq_3 with_copy_run
      with_sptr_def finally_world_def finally_do_def store_sptr_def assign_sptr_def take_sptr_def
      give_sptr_def)

end
