(* ===== verification/CRS_Distribution.thy ===== *)
theory CRS_Distribution
  imports CRS_Services
begin

text \<open>
  The class \<open>DistributionManager\<close> (\<open>simcrs/command/DistributionManager.cpp\<close>): the three
  commands that forward to AirInv. They keep no state of their own, so they run on the state
  \<open>'w\<close> of the external components. The two iterators of a sale advance together; the second
  one is dereferenced without a test of its end.
\<close>

section \<open>Availability\<close>

text \<open>
  The loop writes each element of the list in place. When a call throws, the elements before
  have their new value, that element has what the callee left, the others are untouched.
\<close>

fun availability_loop ::
  "'w apis \<Rightarrow> svc \<Rightarrow> travel_solution list \<Rightarrow> 'w \<Rightarrow> unit outcome \<times> travel_solution list \<times> 'w"
where
  "availability_loop A ai [] w = (Ret (), [], w)"
| "availability_loop A ai (t # ts) w =
     (case airinv_calculateAvailability (airinvA A) ai (t, w) of
        (Ret _, t', w') \<Rightarrow>
          (case availability_loop A ai ts w' of (r, ts', w'') \<Rightarrow> (r, t' # ts', w''))
      | (Throw e, t', w') \<Rightarrow> (Throw e, t' # ts, w')
      | (Halt b, t', w') \<Rightarrow> (Halt b, t' # ts, w'))"

definition DistributionManager_calculateAvailability ::
  "'w apis \<Rightarrow> svc \<Rightarrow> (travel_solution list \<times> 'w, unit) prog" where
  "DistributionManager_calculateAvailability A ai = (\<lambda>(ts, w). availability_loop A ai ts w)"

section \<open>Sale\<close>

text \<open>
  The class code of a class list is its first character; an empty list fails the assertion.
\<close>

definition class_code :: "string \<Rightarrow> ('s, string) prog" where
  "class_code lClassList =
     (case lClassList of [] \<Rightarrow> halt AssertionFailure | c # _ \<Rightarrow> ret [c])"

fun sell_by_id_loop ::
  "'w apis \<Rightarrow> svc \<Rightarrow> NbOfSeats_T \<Rightarrow> (string \<rightharpoonup> BookingClassID_T) list \<Rightarrow> string list \<Rightarrow> bool
   \<Rightarrow> ('w, bool) prog"
where
  "sell_by_id_loop A ai n [] itClass ok = ret ok"
| "sell_by_id_loop A ai n (m # ms) [] ok = halt (Undefined Past_end)"
| "sell_by_id_loop A ai n (m # ms) (cl # cls) ok =
     bindM (class_code cl) (\<lambda>code.
       case m code of
         None \<Rightarrow> halt AssertionFailure
       | Some lClassID \<Rightarrow>
           bindM (airinv_sell_id (airinvA A) ai lClassID n) (sell_by_id_loop A ai n ms cls))"

fun sell_by_key_loop ::
  "'w apis \<Rightarrow> svc \<Rightarrow> NbOfSeats_T \<Rightarrow> string list \<Rightarrow> string list \<Rightarrow> bool \<Rightarrow> ('w, bool) prog"
where
  "sell_by_key_loop A ai n [] itClass ok = ret ok"
| "sell_by_key_loop A ai n (k # ks) [] ok = halt (Undefined Past_end)"
| "sell_by_key_loop A ai n (k # ks) (cl # cls) ok =
     bindM (class_code cl) (\<lambda>code.
       bindM (airinv_sell_key (airinvA A) ai k code n) (sell_by_key_loop A ai n ks cls))"

definition DistributionManager_sell ::
  "'w apis \<Rightarrow> svc \<Rightarrow> travel_solution \<Rightarrow> NbOfSeats_T \<Rightarrow> ('w, bool) prog" where
  "DistributionManager_sell A ai t n =
     (if length (classObjectIDMapHolder t) > 0
      then sell_by_id_loop A ai n (classObjectIDMapHolder t)
             (classPath (chosenFareOption t)) False
      else sell_by_key_loop A ai n (segmentPath t) (classPath (chosenFareOption t)) False)"

section \<open>Cancellation\<close>

fun cancel_loop ::
  "'w apis \<Rightarrow> svc \<Rightarrow> PartySize_T \<Rightarrow> BookingClassID_T list \<Rightarrow> bool \<Rightarrow> ('w, bool) prog" where
  "cancel_loop A ai n [] ok = ret ok"
| "cancel_loop A ai n (c # cs) ok =
     bindM (airinv_cancel (airinvA A) ai c n) (cancel_loop A ai n cs)"

definition DistributionManager_playCancellation ::
  "'w apis \<Rightarrow> svc \<Rightarrow> cancellation_struct \<Rightarrow> ('w, bool) prog" where
  "DistributionManager_playCancellation A ai c =
     cancel_loop A ai (cancelledPartySize c) (classIDList c) False"

section \<open>What a sale asks AirInv for\<close>

text \<open>
  The specification of a sale. A travel solution determines the requests that go to AirInv,
  in order, and the fault that ends the list when the solution is not well formed: a class
  path that is too short, an empty class list, a class that the segment does not offer.
\<close>

datatype sale_request = By_class BookingClassID_T | By_segment string string

type_synonym script = "sale_request list \<times> fault option"

definition script_cons :: "sale_request \<Rightarrow> script \<Rightarrow> script" where
  "script_cons r sc = (r # fst sc, snd sc)"

fun script_by_id :: "(string \<rightharpoonup> BookingClassID_T) list \<Rightarrow> string list \<Rightarrow> script" where
  "script_by_id [] cls = ([], None)"
| "script_by_id (m # ms) [] = ([], Some (Undefined Past_end))"
| "script_by_id (m # ms) ([] # cls) = ([], Some AssertionFailure)"
| "script_by_id (m # ms) ((c # cl) # cls) =
     (case m [c] of None \<Rightarrow> ([], Some AssertionFailure)
      | Some x \<Rightarrow> script_cons (By_class x) (script_by_id ms cls))"

fun script_by_key :: "string list \<Rightarrow> string list \<Rightarrow> script" where
  "script_by_key [] cls = ([], None)"
| "script_by_key (k # ks) [] = ([], Some (Undefined Past_end))"
| "script_by_key (k # ks) ([] # cls) = ([], Some AssertionFailure)"
| "script_by_key (k # ks) ((c # cl) # cls) =
     script_cons (By_segment k [c]) (script_by_key ks cls)"

definition sale_script :: "travel_solution \<Rightarrow> script" where
  "sale_script t =
     (if classObjectIDMapHolder t \<noteq> []
      then script_by_id (classObjectIDMapHolder t) (classPath (chosenFareOption t))
      else script_by_key (segmentPath t) (classPath (chosenFareOption t)))"

definition submit :: "'w apis \<Rightarrow> svc \<Rightarrow> NbOfSeats_T \<Rightarrow> sale_request \<Rightarrow> ('w, bool) prog" where
  "submit A ai n r = (case r of
      By_class x \<Rightarrow> airinv_sell_id (airinvA A) ai x n
    | By_segment k c \<Rightarrow> airinv_sell_key (airinvA A) ai k c n)"

definition run_script ::
  "'w apis \<Rightarrow> svc \<Rightarrow> NbOfSeats_T \<Rightarrow> script \<Rightarrow> bool \<Rightarrow> ('w, bool) prog" where
  "run_script A ai n sc ok = bindM (mapM (submit A ai n) (fst sc)) (\<lambda>bs.
     case snd sc of None \<Rightarrow> ret (last (ok # bs)) | Some b \<Rightarrow> halt b)"

lemma run_script_simps [simp]:
  "run_script A ai n ([], None) ok = ret ok"
  "run_script A ai n ([], Some b) ok = halt b"
  "run_script A ai n (script_cons r sc) ok = bindM (submit A ai n r) (run_script A ai n sc)"
  by (auto simp: run_script_def script_cons_def bindM_assoc fun_eq_iff bindM_cases
      split: option.split prod.split outcome.split)

lemma submit_simps [simp]:
  "submit A ai n (By_class x) = airinv_sell_id (airinvA A) ai x n"
  "submit A ai n (By_segment k c) = airinv_sell_key (airinvA A) ai k c n"
  by (simp_all add: submit_def)

lemma class_code_simps [simp, crs_prog]:
  "class_code [] = halt AssertionFailure" "class_code (c # cl) = ret [c]"
  by (simp_all add: class_code_def)

lemma sell_by_id_script:
  "sell_by_id_loop A ai n ms cls = run_script A ai n (script_by_id ms cls)"
proof (induction ms cls rule: script_by_id.induct)
  case (4 m ms c cl cls)
  show ?case
    by (cases "m [c]", rule_tac [!] ext) (simp_all add: "4.IH" del: run_simps)
qed (rule ext, simp del: run_simps)+

lemma sell_by_key_script:
  "sell_by_key_loop A ai n ks cls = run_script A ai n (script_by_key ks cls)"
  by (induction ks cls rule: script_by_key.induct) (rule ext, simp del: run_simps)+

text \<open>The code of a sale, on a state of the external components, runs the script.\<close>

lemma sell_runs_script:
  "DistributionManager_sell A ai t n = run_script A ai n (sale_script t) False"
  by (simp add: DistributionManager_sell_def sale_script_def sell_by_id_script
      sell_by_key_script)

interpretation cancellation: latest_answer
  "\<lambda>c. airinv_cancel (airinvA A) ai c n" "cancel_loop A ai n"
  for A ai n
  by unfold_locales simp_all

interpretation sales: latest_answer "submit A ai n" "\<lambda>rs. run_script A ai n (rs, None)"
  for A ai n
  by unfold_locales (simp_all add: run_script_def bindM_assoc fun_eq_iff bindM_cases
      split: prod.split outcome.split)

section \<open>Well-formed travel solutions\<close>

text \<open>
  A solution can be sold when the class path reaches as far as the segments, each class list
  it names is non-empty and, with class identities, the segment offers that class. Then its
  requests are, segment by segment, one per class identity, or one per segment key.
\<close>

definition sellable :: "travel_solution \<Rightarrow> bool" where
  "sellable t \<longleftrightarrow>
     (let cls = classPath (chosenFareOption t); ms = classObjectIDMapHolder t;
          ks = segmentPath t
      in if ms \<noteq> []
         then length ms \<le> length cls \<and>
           (\<forall>i < length ms. cls ! i \<noteq> [] \<and> (ms ! i) [hd (cls ! i)] \<noteq> None)
         else length ks \<le> length cls \<and> (\<forall>i < length ks. cls ! i \<noteq> []))"

definition sale_requests :: "travel_solution \<Rightarrow> sale_request list" where
  "sale_requests t =
     (let cls = classPath (chosenFareOption t); ms = classObjectIDMapHolder t;
          ks = segmentPath t
      in if ms \<noteq> [] then map (\<lambda>(m, cl). By_class (the (m [hd cl]))) (zip ms cls)
         else map (\<lambda>(k, cl). By_segment k [hd cl]) (zip ks cls))"

lemma all_less_Suc: "(\<forall>i < Suc n. P i) \<longleftrightarrow> P 0 \<and> (\<forall>i < n. P (Suc i))"
  by (auto simp: less_Suc_eq_0_disj)

lemma script_cons_simps [simp]:
  "snd (script_cons r sc) = snd sc" "fst (script_cons r sc) = r # fst sc"
  by (simp_all add: script_cons_def)

lemma script_by_id_ok:
  "snd (script_by_id ms cls) = None \<longleftrightarrow> length ms \<le> length cls \<and>
     (\<forall>i < length ms. cls ! i \<noteq> [] \<and> (ms ! i) [hd (cls ! i)] \<noteq> None)"
  by (induction ms cls rule: script_by_id.induct) (auto simp: all_less_Suc split: option.split)

lemma script_by_key_ok:
  "snd (script_by_key ks cls) = None \<longleftrightarrow>
     length ks \<le> length cls \<and> (\<forall>i < length ks. cls ! i \<noteq> [])"
  by (induction ks cls rule: script_by_key.induct) (auto simp: all_less_Suc)

lemma script_by_id_requests:
  "snd (script_by_id ms cls) = None \<Longrightarrow>
   fst (script_by_id ms cls) = map (\<lambda>(m, cl). By_class (the (m [hd cl]))) (zip ms cls)"
  by (induction ms cls rule: script_by_id.induct) (auto split: option.splits)

lemma script_by_key_requests:
  "snd (script_by_key ks cls) = None \<Longrightarrow>
   fst (script_by_key ks cls) = map (\<lambda>(k, cl). By_segment k [hd cl]) (zip ks cls)"
  by (induction ks cls rule: script_by_key.induct) auto

lemma sellable_iff: "sellable t \<longleftrightarrow> snd (sale_script t) = None"
  by (simp add: sellable_def sale_script_def script_by_id_ok script_by_key_ok Let_def)

lemma sale_script_sellable: "sellable t \<Longrightarrow> sale_script t = (sale_requests t, None)"
  using sellable_iff [of t]
  by (auto simp: sale_script_def sale_requests_def Let_def script_by_id_requests
      script_by_key_requests prod_eq_iff)

text \<open>A sample solution of two segments, with class identities.\<close>

definition two_segments :: travel_solution where
  "two_segments = \<lparr>segmentPath = [''BA1'', ''BA2''],
     classObjectIDMapHolder = [[''Y'' \<mapsto> 1], [''Y'' \<mapsto> 2]], fareOptionList = [],
     chosenFareOption = \<lparr>classPath = [''Y'', ''Y''], fareOptionRest = []\<rparr>,
     travelSolutionRest = []\<rparr>"

section \<open>Properties\<close>

text \<open>
  C1. A sale of a well-formed solution sends AirInv exactly one request per segment, in the
  order of the segments, and every request even after a refused one; it reports the answer
  to the last request, and false when the solution has no segment.
\<close>

theorem sell_reports_last_answer:
  assumes "sellable t"
  shows "DistributionManager_sell A ai t n =
    bindM (mapM (submit A ai n) (sale_requests t)) (\<lambda>bs. ret (last (False # bs)))"
  by (simp only: sell_runs_script sale_script_sellable [OF assms] sales.loop_latest)

theorem sell_reports_last_answer_witness:
  "DistributionManager_sell (echo_apis (\<lambda>x. x = 1) []) 7 two_segments 3 ([], 0)
     = (Ret False, [(''airinv.sell'', 7), (''airinv.sell'', 7)], 0)"
proof -
  have "sellable two_segments"
    by (simp add: sellable_iff sale_script_def two_segments_def)
  then show ?thesis
    by (subst sell_reports_last_answer)
      (simp_all add: sale_requests_def two_segments_def echo_apis_def bindM_cases)
qed

text \<open>
  C14. A sale of a solution that is not well formed (a class path shorter than the segments,
  an empty class list, a class the segment does not offer) never returns. It is detected
  segment by segment only: all requests of the script, those before the offending segment,
  have been sent and are not undone.
\<close>

theorem sell_ill_formed_stops:
  assumes "\<not> sellable t"
  shows "\<exists>b. snd (sale_script t) = Some b \<and> DistributionManager_sell A ai t n =
    bindM (mapM (submit A ai n) (fst (sale_script t))) (\<lambda>_. halt b)"
proof -
  obtain b where b: "snd (sale_script t) = Some b" using assms sellable_iff by blast
  then show ?thesis
    by (auto simp: sell_runs_script run_script_def simp del: run_simps)
qed

theorem sell_ill_formed_stops_witness:
  "DistributionManager_sell (echo_apis (\<lambda>x. True) []) 7
     (two_segments\<lparr>chosenFareOption := \<lparr>classPath = [''Y''], fareOptionRest = []\<rparr>\<rparr>) 3 ([], 0)
     = (Halt (Undefined Past_end), [(''airinv.sell'', 7)], 0)"
proof -
  let ?t = "two_segments\<lparr>chosenFareOption := \<lparr>classPath = [''Y''], fareOptionRest = []\<rparr>\<rparr>"
  have "sale_script ?t = ([By_class 1], Some (Undefined Past_end))"
    by (simp add: sale_script_def two_segments_def script_cons_def)
  moreover from this have "\<not> sellable ?t" by (simp add: sellable_iff)

  from sell_ill_formed_stops [OF this, of "echo_apis (\<lambda>x. True) []" 7 3]
  obtain b where "snd (sale_script ?t) = Some b"
    "DistributionManager_sell (echo_apis (\<lambda>x. True) []) 7 ?t 3
      = bindM (mapM (submit (echo_apis (\<lambda>x. True) []) 7 3) (fst (sale_script ?t)))
          (\<lambda>_. halt b)"
    by blast
  ultimately show ?thesis by (simp add: echo_apis_def bindM_cases)
qed

text \<open>
  A cancellation sends one request per booking class, in order, all with the same party
  size and whatever the earlier answers are; it reports the last answer, and false for an
  empty list.
\<close>

lemma cancellation_reports_last_answer:
  "DistributionManager_playCancellation A ai c =
    bindM (mapM (\<lambda>x. airinv_cancel (airinvA A) ai x (cancelledPartySize c)) (classIDList c))
      (\<lambda>bs. ret (last (False # bs)))"
  by (simp only: DistributionManager_playCancellation_def cancellation.loop_latest)

text \<open>
  A sale can report success although a segment was refused: on a two-segment solution
  whose first class has no seat left, both requests are sent, the first is refused, and the
  answer is true.
\<close>

lemma sell_hides_refusal:
  "DistributionManager_sell (echo_apis (\<lambda>x. x \<noteq> 1) []) 7 two_segments 3 ([], 0)
     = (Ret True, [(''airinv.sell'', 7), (''airinv.sell'', 7)], 0) \<and>
   airinv_sell_id (airinvA (echo_apis (\<lambda>x. x \<noteq> 1) [])) 7 1 3 ([], 0)
     = (Ret False, [(''airinv.sell'', 7)], 0)"
  by (simp add: DistributionManager_sell_def two_segments_def echo_apis_def bindM_cases)

text \<open>
  C28. An exception during the availability calculation leaves the list half done, and where
  it is half done is determined: it ends with an exception exactly when the calculation of
  some element \<open>k\<close> throws after those before it have returned; then the elements before \<open>k\<close>
  are the calculated ones, element \<open>k\<close> is what the callee left, and those after are untouched.
\<close>

theorem availability_exception_position:
  "DistributionManager_calculateAvailability A ai (ts, w) = (Throw e, ts', w') \<longleftrightarrow>
   (\<exists>k < length ts. \<exists>us v u.
      DistributionManager_calculateAvailability A ai (take k ts, w) = (Ret (), us, v) \<and>
      airinv_calculateAvailability (airinvA A) ai (ts ! k, v) = (Throw e, u, w') \<and>
      ts' = us @ u # drop (Suc k) ts)"
  unfolding DistributionManager_calculateAvailability_def prod.case
proof (induction ts arbitrary: w ts')
  case Nil
  then show ?case by simp
next
  case (Cons t ts)
  obtain r t1 w1 where run: "airinv_calculateAvailability (airinvA A) ai (t, w) = (r, t1, w1)"
    by (cases "airinv_calculateAvailability (airinvA A) ai (t, w)") auto
  have ex: "(\<exists>k < length (t # ts). P k) \<longleftrightarrow> P 0 \<or> (\<exists>k < length ts. P (Suc k))" for P
    by (auto simp: less_Suc_eq_0_disj)
  show ?case
  proof (cases r)
    case (Ret x)
    have step: "availability_loop A ai (t # xs) w = (q, us, v) \<longleftrightarrow>
        (\<exists>vs. availability_loop A ai xs w1 = (q, vs, v) \<and> us = t1 # vs)" for xs q us v
      using run Ret by (auto split: prod.split)
    have none: "airinv_calculateAvailability (airinvA A) ai (t, w) \<noteq> (Throw e, u, w')" for u
      using run Ret by simp
    show ?thesis
      unfolding ex
      apply (auto simp: step Cons.IH none simp del: availability_loop.simps(2))
      subgoal for k v vs u by (rule exI [of _ k]) auto
      done
  qed (use run in \<open>unfold ex, auto split: prod.splits outcome.splits\<close>)
qed

text \<open>
  The availability calculation never adds, drops or moves a solution, however it ends.
\<close>

lemma availability_keeps_length:
  "DistributionManager_calculateAvailability A ai (ts, w) = (r, ts', w') \<Longrightarrow>
   length ts' = length ts"
  unfolding DistributionManager_calculateAvailability_def prod.case
  by (induction ts arbitrary: w ts' w' r) (auto split: prod.splits outcome.splits)

end
