(* ===== verification/CRS_Operations.thy ===== *)
theory CRS_Operations
  imports CRS_Service CRS_Distribution
begin

text \<open>
  The public methods of \<open>SIMCRS_Service\<close> that ask one other component
  (\<open>simcrs/service/SIMCRS_Service.cpp\<close>). Each of them tests the context pointer first, takes
  the handler it needs from the context, and forwards the call; the four longer ones also
  take the time and log it. A list that the caller passes by reference is the first component
  of the state they run on. None of them writes the context, so the copy of the context that
  the model reads at the start is what the C++ reference still shows at the end.
\<close>

section \<open>The guard of the public methods\<close>

definition NOT_INITIALISED :: string where
  "NOT_INITIALISED = ''The SimCRS service has not been initialised''"

definition checked_context :: "simcrs_service \<Rightarrow> ('x mem_scheme, service_context) prog" where
  "checked_context this =
     (if simcrsServiceContext this = None
      then raise (NonInitialisedServiceException NOT_INITIALISED)
      else bindM (asserted_context this) (\<lambda>(_, c). ret c))"

section \<open>Sample data\<close>

definition SIMCRS_buildSampleTravelSolutions ::
  "'w apis \<Rightarrow> simcrs_service \<Rightarrow> (travel_solution list \<times> ('w, 'x) crs_state_scheme, unit) prog"
where
  "SIMCRS_buildSampleTravelSolutions A this = bindM (beside_ref (checked_context this)) (\<lambda>c.
     bindM (getSTDAIR_Service c) (\<lambda>st.
     on_world_ref (stdair_buildSampleTravelSolutions (stdairA A) st)))"

definition SIMCRS_buildSampleBookingRequest ::
  "'w apis \<Rightarrow> simcrs_service \<Rightarrow> bool \<Rightarrow> (('w, 'x) crs_state_scheme, booking_request) prog" where
  "SIMCRS_buildSampleBookingRequest A this isForCRS = bindM (checked_context this) (\<lambda>c.
     bindM (getSTDAIR_Service c) (\<lambda>st.
     on_world (stdair_buildSampleBookingRequest (stdairA A) st isForCRS)))"

section \<open>Requests to the inventory\<close>

definition SIMCRS_sell_key ::
  "'w apis \<Rightarrow> simcrs_service \<Rightarrow> string \<Rightarrow> string \<Rightarrow> PartySize_T
   \<Rightarrow> (('w, 'x) crs_state_scheme, bool) prog" where
  "SIMCRS_sell_key A this iSegmentDateKey iClassCode iPartySize =
     bindM (checked_context this) (\<lambda>c.
     bindM (getAIRINV_Service c) (\<lambda>ai.
     on_world (airinv_sell_key (airinvA A) ai iSegmentDateKey iClassCode
                 (seats_of_party (utilA A) iPartySize))))"

definition SIMCRS_jsonHandler ::
  "'w apis \<Rightarrow> simcrs_service \<Rightarrow> string \<Rightarrow> (('w, 'x) crs_state_scheme, string) prog" where
  "SIMCRS_jsonHandler A this iJSONString = bindM (checked_context this) (\<lambda>c.
     bindM (getAIRINV_Service c) (\<lambda>ai.
     on_world (airinv_jsonHandler (airinvA A) ai iJSONString)))"

definition SIMCRS_initSnapshotAndRMEvents ::
  "'w apis \<Rightarrow> simcrs_service \<Rightarrow> Date_T \<Rightarrow> Date_T \<Rightarrow> (('w, 'x) crs_state_scheme, unit) prog" where
  "SIMCRS_initSnapshotAndRMEvents A this iStartDate iEndDate = bindM (checked_context this) (\<lambda>c.
     bindM (getAIRINV_Service c) (\<lambda>ai.
     on_world (airinv_initSnapshotAndRMEvents (airinvA A) ai iStartDate iEndDate)))"

definition SIMCRS_takeSnapshots ::
  "'w apis \<Rightarrow> simcrs_service \<Rightarrow> snapshot_struct \<Rightarrow> (('w, 'x) crs_state_scheme, unit) prog" where
  "SIMCRS_takeSnapshots A this iSnapshot = bindM (checked_context this) (\<lambda>c.
     bindM (getAIRINV_Service c) (\<lambda>ai.
     on_world (airinv_takeSnapshots (airinvA A) ai iSnapshot)))"

definition SIMCRS_optimise ::
  "'w apis \<Rightarrow> simcrs_service \<Rightarrow> rm_event_struct \<Rightarrow> (('w, 'x) crs_state_scheme, unit) prog" where
  "SIMCRS_optimise A this iRMEvent = bindM (checked_context this) (\<lambda>c.
     bindM (getAIRINV_Service c) (\<lambda>ai.
     on_world (airinv_optimise (airinvA A) ai iRMEvent)))"

section \<open>Display\<close>

definition SIMCRS_csvDisplay ::
  "'w apis \<Rightarrow> simcrs_service \<Rightarrow> (('w, 'x) crs_state_scheme, string) prog" where
  "SIMCRS_csvDisplay A this = bindM (checked_context this) (\<lambda>c.
     bindM (getSTDAIR_Service c) (\<lambda>st.
     bindM (on_world (stdair_getBomRoot (stdairA A) st)) (\<lambda>lBomRoot.
     on_world (stdair_csvDisplay (stdairA A) st lBomRoot))))"

definition SIMCRS_csvDisplay_list ::
  "'w apis \<Rightarrow> simcrs_service \<Rightarrow> travel_solution list \<Rightarrow> (('w, 'x) crs_state_scheme, string) prog"
where
  "SIMCRS_csvDisplay_list A this ioTravelSolutionList = bindM (checked_context this) (\<lambda>c.
     bindM (getSTDAIR_Service c) (\<lambda>st.
     on_world (stdair_csvDisplay_list (stdairA A) st ioTravelSolutionList)))"

definition SIMCRS_list ::
  "'w apis \<Rightarrow> simcrs_service \<Rightarrow> string \<Rightarrow> int \<Rightarrow> (('w, 'x) crs_state_scheme, string) prog" where
  "SIMCRS_list A this iAirlineCode iFlightNumber = bindM (checked_context this) (\<lambda>c.
     bindM (getAIRINV_Service c) (\<lambda>ai.
     on_world (airinv_list (airinvA A) ai iAirlineCode iFlightNumber)))"

definition SIMCRS_csvDisplay_flight ::
  "'w apis \<Rightarrow> simcrs_service \<Rightarrow> string \<Rightarrow> int \<Rightarrow> Date_T
   \<Rightarrow> (('w, 'x) crs_state_scheme, string) prog" where
  "SIMCRS_csvDisplay_flight A this iAirlineCode iFlightNumber iDepartureDate =
     bindM (checked_context this) (\<lambda>c.
     bindM (getAIRINV_Service c) (\<lambda>ai.
     on_world (airinv_csvDisplay (airinvA A) ai iAirlineCode iFlightNumber iDepartureDate)))"

section \<open>The timed methods\<close>

text \<open>
  The end of a timed method: the measure is taken, then the message, which displays the
  context, goes to the log.
\<close>

definition log_measure ::
  "'w apis \<Rightarrow> string \<Rightarrow> nat \<Rightarrow> service_context \<Rightarrow> (('w, 'x) crs_state_scheme, unit) prog" where
  "log_measure A label start c =
     bindM (on_world (chrono_elapsed (utilA A) start)) (\<lambda>measure.
     bindM (display c) (\<lambda>shown.
     on_world (log_debug (utilA A) (label @ measure @ '' - '' @ shown))))"

definition SIMCRS_calculateSegmentPathList ::
  "'w apis \<Rightarrow> simcrs_service \<Rightarrow> booking_request
   \<Rightarrow> (('w, 'x) crs_state_scheme, travel_solution list) prog" where
  "SIMCRS_calculateSegmentPathList A this iBookingRequest = bindM (checked_context this) (\<lambda>c.
     with_local [] (
       bindM (getAIRTSP_Service c) (\<lambda>ts.
       bindM (beside_ref (on_world (chrono_start (utilA A)))) (\<lambda>start.
       seqM (on_world_ref (airtsp_buildSegmentPathList (airtspA A) ts iBookingRequest))
            (beside_ref (log_measure A ''Travel solution retrieving: '' start c))))))"

definition SIMCRS_fareQuote ::
  "'w apis \<Rightarrow> simcrs_service \<Rightarrow> booking_request
   \<Rightarrow> (travel_solution list \<times> ('w, 'x) crs_state_scheme, unit) prog" where
  "SIMCRS_fareQuote A this iBookingRequest = bindM (beside_ref (checked_context this)) (\<lambda>c.
     bindM (getSIMFQT_Service c) (\<lambda>fq.
     bindM (beside_ref (on_world (chrono_start (utilA A)))) (\<lambda>start.
     seqM (on_world_ref (simfqt_quotePrices (simfqtA A) fq iBookingRequest))
          (beside_ref (log_measure A ''Fare Quote retrieving: '' start c)))))"

definition SIMCRS_calculateAvailability ::
  "'w apis \<Rightarrow> simcrs_service \<Rightarrow> (travel_solution list \<times> ('w, 'x) crs_state_scheme, unit) prog"
where
  "SIMCRS_calculateAvailability A this = bindM (beside_ref (checked_context this)) (\<lambda>c.
     bindM (getAIRINV_Service c) (\<lambda>ai.
     bindM (beside_ref (on_world (chrono_start (utilA A)))) (\<lambda>start.
     seqM (on_world_ref (DistributionManager_calculateAvailability A ai))
          (beside_ref (log_measure A ''Availability retrieval: '' start c)))))"

definition SIMCRS_sell ::
  "'w apis \<Rightarrow> simcrs_service \<Rightarrow> travel_solution \<Rightarrow> PartySize_T
   \<Rightarrow> (('w, 'x) crs_state_scheme, bool) prog" where
  "SIMCRS_sell A this iTravelSolution iPartySize = bindM (checked_context this) (\<lambda>c.
     bindM (getAIRINV_Service c) (\<lambda>ai.
     bindM (on_world (chrono_start (utilA A))) (\<lambda>start.
     bindM (on_world (DistributionManager_sell A ai iTravelSolution
                        (seats_of_party (utilA A) iPartySize))) (\<lambda>hasSaleBeenSuccessful.
     seqM (on_world (log_debug (utilA A)
             (''Made a sell of '' @ show_party (utilA A) iPartySize
              @ '' persons on the following travel solution: ''
              @ describe_solution (utilA A) iTravelSolution
              @ '' with the chosen fare option: ''
              @ describe_fare_option (utilA A) (chosenFareOption iTravelSolution)
              @ ''. Successful? '' @ show_bool hasSaleBeenSuccessful)))
    (seqM (log_measure A ''Booking sell: '' start c)
          (ret hasSaleBeenSuccessful))))))"

definition SIMCRS_playCancellation ::
  "'w apis \<Rightarrow> simcrs_service \<Rightarrow> cancellation_struct \<Rightarrow> (('w, 'x) crs_state_scheme, bool) prog"
where
  "SIMCRS_playCancellation A this iCancellation = bindM (checked_context this) (\<lambda>c.
     bindM (getAIRINV_Service c) (\<lambda>ai.
     bindM (on_world (chrono_start (utilA A))) (\<lambda>start.
     bindM (on_world (DistributionManager_playCancellation A ai iCancellation))
       (\<lambda>hasCancellationBeenSuccessful.
     seqM (on_world (log_debug (utilA A)
             (''Made a cancellation of '' @ describe_cancellation (utilA A) iCancellation)))
    (seqM (log_measure A ''Booking cancellation: '' start c)
          (ret hasCancellationBeenSuccessful))))))"

section \<open>The contract of a client of the context\<close>

lemma checked_context_cases:
  "checked_context this s = (case simcrsServiceContext this of
      None \<Rightarrow> (Throw (NonInitialisedServiceException NOT_INITIALISED), s)
    | Some a \<Rightarrow> (case contexts s a of
        None \<Rightarrow> (Halt (Undefined Dangling), s) | Some c \<Rightarrow> (Ret c, s)))"
  by (simp add: checked_context_def asserted_context_def bindM_cases load_def
      split: option.split)

lemma keeps_checked_context [keeps_intros]: "keeps g (checked_context this)"
  by (simp add: keeps_def checked_context_cases split: option.split)

lemma truncate_world [simp]: "mem.truncate (s\<lparr>world := w\<rparr>) = mem.truncate s"
  by (simp add: mem.defs)

lemma checked_twice:
  "bindM (checked_context this) (\<lambda>_. bindM (checked_context this) f)
   = bindM (checked_context this) f"
  by (rule ext) (simp add: bindM_cases checked_context_cases split: option.split)

text \<open>
  A public method writes nothing but the state of the external components.
\<close>

locale framed_client =
  fixes op :: "simcrs_service \<Rightarrow> (('w, 'x) crs_state_scheme, 'a) prog"
  assumes op_frame: "keeps mem.truncate (op this)"
begin

lemma op_memory: "mem.truncate (snd (op this s)) = mem.truncate s"
  by (rule keeps_snd [OF op_frame])

end

text \<open>
  A method with a guard starts with it, so that running the guard once more before the method
  makes no difference.
\<close>

locale context_client = framed_client +
  fixes has_guard :: bool
  assumes op_guarded: "has_guard \<Longrightarrow> op this = bindM (checked_context this) (\<lambda>_. op this)"
begin

lemma op_null:
  assumes "has_guard" "simcrsServiceContext this = None"
  shows "op this s = (Throw (NonInitialisedServiceException NOT_INITIALISED), s)"
  by (subst op_guarded [OF assms(1)]) (simp add: assms(2) bindM_cases checked_context_cases)

lemma op_dead:
  assumes "has_guard" "simcrsServiceContext this = Some a" "contexts s a = None"
  shows "op this s = (Halt (Undefined Dangling), s)"
  by (subst op_guarded [OF assms(1)]) (simp add: assms bindM_cases checked_context_cases)

end

text \<open>Programs with a reference parameter, as the caller that owns the variable sees them.\<close>

lemma with_local_checked:
  "with_local v (bindM (beside_ref (checked_context this)) f)
   = bindM (checked_context this) (\<lambda>c. with_local v (f c))"
  by (rule ext) (simp add: with_local_def beside_ref_def bindM_cases checked_context_cases
      split: option.split)

lemma keeps_with_local [keeps_intros]:
  assumes "keeps (\<lambda>p. g (snd p)) m"
  shows "keeps g (with_local v m)"
  unfolding keeps_def
proof
  fix s
  obtain r v' s' where run: "m (v, s) = (r, v', s')" by (cases "m (v, s)") auto
  have "g s' = g s" using keepsD [OF assms run] by simp
  then show "g (snd (with_local v m s)) = g s"
    by (simp add: with_local_def run split: outcome.split)
qed

lemma keeps_beside_ref [keeps_intros]: "keeps g m \<Longrightarrow> keeps (\<lambda>p. g (snd p)) (beside_ref m)"
  by (simp add: keeps_def beside_ref_def case_prod_beta)

lemma keeps_on_world_ref [keeps_intros]:
  "(\<And>s w. g (s\<lparr>world := w\<rparr>) = g s) \<Longrightarrow> keeps (\<lambda>p. g (snd p)) (on_world_ref m)"
  by (auto simp: keeps_def on_world_ref_def split: prod.split)

lemma keeps_log_measure [keeps_intros]:
  "(\<And>s w. g (s\<lparr>world := w\<rparr>) = g s) \<Longrightarrow> keeps g (log_measure A label start c)"
  unfolding log_measure_def by (intro keeps_intros)

lemmas plain_method_defs = SIMCRS_buildSampleBookingRequest_def SIMCRS_sell_key_def
  SIMCRS_jsonHandler_def SIMCRS_initSnapshotAndRMEvents_def SIMCRS_takeSnapshots_def
  SIMCRS_optimise_def SIMCRS_csvDisplay_def SIMCRS_csvDisplay_list_def SIMCRS_list_def
  SIMCRS_csvDisplay_flight_def SIMCRS_calculateSegmentPathList_def SIMCRS_sell_def
  SIMCRS_playCancellation_def

lemmas ref_method_defs = SIMCRS_buildSampleTravelSolutions_def SIMCRS_fareQuote_def
  SIMCRS_calculateAvailability_def

section \<open>Environments that do not stop\<close>

text \<open>
  The documented behaviour of the external components as far as the absence of faults goes:
  their operations return or throw, they do not abort the process.
\<close>

definition no_halt :: "('s, 'a) prog \<Rightarrow> bool" where
  "no_halt m \<longleftrightarrow> settles (\<lambda>_. True) m"

definition quiet_util :: "'w util_api \<Rightarrow> bool" where
  "quiet_util U \<longleftrightarrow> (\<forall>t. no_halt (log_debug U t)) \<and> (\<forall>t. no_halt (log_error U t)) \<and>
     no_halt (chrono_start U) \<and> (\<forall>n. no_halt (chrono_elapsed U n))"

definition quiet_stdair :: "'w stdair_api \<Rightarrow> bool" where
  "quiet_stdair S \<longleftrightarrow> (\<forall>x. no_halt (stdair_getBomRoot S x)) \<and>
     (\<forall>x. no_halt (stdair_getPersistentBomRoot S x)) \<and>
     (\<forall>x. no_halt (stdair_buildSampleBom S x)) \<and>
     (\<forall>x. no_halt (stdair_clonePersistentBom S x)) \<and>
     (\<forall>x. no_halt (stdair_buildSampleTravelSolutions S x)) \<and>
     (\<forall>x b. no_halt (stdair_buildSampleBookingRequest S x b)) \<and>
     (\<forall>x r. no_halt (stdair_csvDisplay S x r)) \<and>
     (\<forall>x l. no_halt (stdair_csvDisplay_list S x l))"

definition quiet_airtsp :: "'w airtsp_api \<Rightarrow> bool" where
  "quiet_airtsp T \<longleftrightarrow> (\<forall>x f. no_halt (airtsp_parseAndLoad T x f)) \<and>
     (\<forall>x. no_halt (airtsp_buildSampleBom T x)) \<and>
     (\<forall>x. no_halt (airtsp_clonePersistentBom T x)) \<and>
     (\<forall>x q. no_halt (airtsp_buildSegmentPathList T x q))"

definition quiet_simfqt :: "'w simfqt_api \<Rightarrow> bool" where
  "quiet_simfqt F \<longleftrightarrow> (\<forall>x f. no_halt (simfqt_parseAndLoad F x f)) \<and>
     (\<forall>x. no_halt (simfqt_buildSampleBom F x)) \<and>
     (\<forall>x. no_halt (simfqt_clonePersistentBom F x)) \<and>
     (\<forall>x q. no_halt (simfqt_quotePrices F x q))"

definition quiet_airinv :: "'w airinv_api \<Rightarrow> bool" where
  "quiet_airinv I \<longleftrightarrow>
     (\<forall>x f g h i j. no_halt (airinv_parseAndLoad I x f g h i j)) \<and>
     (\<forall>x. no_halt (airinv_buildSampleBom I x)) \<and>
     (\<forall>x. no_halt (airinv_clonePersistentBom I x)) \<and>
     (\<forall>x. no_halt (airinv_calculateAvailability I x)) \<and>
     (\<forall>x c n. no_halt (airinv_sell_id I x c n)) \<and>
     (\<forall>x k c n. no_halt (airinv_sell_key I x k c n)) \<and>
     (\<forall>x c n. no_halt (airinv_cancel I x c n)) \<and>
     (\<forall>x j. no_halt (airinv_jsonHandler I x j)) \<and>
     (\<forall>x a n. no_halt (airinv_list I x a n)) \<and>
     (\<forall>x a n d. no_halt (airinv_csvDisplay I x a n d)) \<and>
     (\<forall>x b e. no_halt (airinv_initSnapshotAndRMEvents I x b e)) \<and>
     (\<forall>x q. no_halt (airinv_takeSnapshots I x q)) \<and>
     (\<forall>x q. no_halt (airinv_optimise I x q))"

definition quiet :: "'w apis \<Rightarrow> bool" where
  "quiet A \<longleftrightarrow> quiet_util (utilA A) \<and> quiet_stdair (stdairA A) \<and> quiet_airtsp (airtspA A) \<and>
     quiet_simfqt (simfqtA A) \<and> quiet_airinv (airinvA A)"

lemmas quiet_defs = quiet_def quiet_util_def quiet_stdair_def quiet_airtsp_def
  quiet_simfqt_def quiet_airinv_def

lemma no_halt_iff: "no_halt m \<longleftrightarrow> (\<forall>s. \<not> is_halt (fst (m s)))"
  by (simp add: no_halt_def settles_def)

lemma quiet_echo: "quiet (echo_apis ok sols)"
  by (simp add: quiet_defs no_halt_iff echo_apis_def split_paired_all note_call_def
      note_inout_def)

definition serves :: "simcrs_service \<Rightarrow> 'x mem_scheme \<Rightarrow> bool" where
  "serves this s \<longleftrightarrow> (\<exists>a c. simcrsServiceContext this = Some a \<and> contexts s a = Some c \<and>
     context_complete c)"

lemma serves_world [simp]: "serves this (s\<lparr>world := w\<rparr>) = serves this s"
  by (simp add: serves_def)

lemma settles_checked [settles_intros]:
  assumes "\<And>c. context_complete c \<Longrightarrow> settles (serves this) (f c)"
  shows "settles (serves this) (bindM (checked_context this) f)"
  using assms by (auto simp: settles_def serves_def bindM_cases checked_context_cases)

lemma settles_checked_ref [settles_intros]:
  assumes "\<And>c. context_complete c \<Longrightarrow> settles (\<lambda>p. serves this (snd p)) (f c)"
  shows "settles (\<lambda>p. serves this (snd p)) (bindM (beside_ref (checked_context this)) f)"
  using assms
  by (auto simp: settles_def serves_def bindM_cases checked_context_cases beside_ref_def)

lemma settles_getters [settles_intros]:
  assumes "context_complete c" and "\<And>x. settles P (f x)"
  shows "settles P (bindM (getSTDAIR_Service c) f)" "settles P (bindM (getAIRTSP_Service c) f)"
    "settles P (bindM (getAIRINV_Service c) f)" "settles P (bindM (getSIMFQT_Service c) f)"
  using assms by (auto simp: getter_defs elim!: complete_getters)

lemma settles_ownStdair [settles_intros]:
  assumes "context_complete c" and "\<And>x. settles P (f x)"
  shows "settles P (bindM (getOwnStdairServiceFlag c) f)"
  using assms by (auto elim!: complete_getters)

lemma settles_display [settles_intros]:
  "context_complete c \<Longrightarrow> settles P (display c)"
  unfolding display_def shortDisplay_def by (intro settles_intros)

lemma settles_on_world [settles_intros]:
  "no_halt m \<Longrightarrow> settles (serves this) (on_world m)"
  by (auto simp: settles_def no_halt_iff on_world_def split: prod.split) (metis fst_conv)

lemma settles_on_world_ref [settles_intros]:
  "no_halt m \<Longrightarrow> settles (\<lambda>p. serves this (snd p)) (on_world_ref m)"
  by (auto simp: settles_def no_halt_iff on_world_ref_def split: prod.split) (metis fst_conv)

lemma settles_beside_ref [settles_intros]:
  "settles P m \<Longrightarrow> settles (\<lambda>p. P (snd p)) (beside_ref m)"
  by (simp add: settles_def beside_ref_def case_prod_beta)

lemma settles_with_local [settles_intros]:
  assumes "settles (\<lambda>p. P (snd p)) m"
  shows "settles P (with_local v m)"
  unfolding settles_def
proof (intro allI impI)
  fix s
  assume P: "P s"
  obtain r v' s' where run: "m (v, s) = (r, v', s')" by (cases "m (v, s)") auto
  have "\<not> is_halt r \<and> P s'" using settlesD [OF assms _ run] P by simp
  then show "\<not> is_halt (fst (with_local v m s)) \<and> P (snd (with_local v m s))"
    by (cases r) (simp_all add: with_local_def run)
qed

lemma quiet_utilD:
  assumes "quiet A"
  shows "no_halt (log_debug (utilA A) t)" "no_halt (log_error (utilA A) t)"
    "no_halt (chrono_start (utilA A))" "no_halt (chrono_elapsed (utilA A) n)"
  using assms by (simp_all add: quiet_def quiet_util_def)

lemma settles_log_measure [settles_intros]:
  "quiet A \<Longrightarrow> context_complete c \<Longrightarrow> settles (serves this) (log_measure A label start c)"
  unfolding log_measure_def by (intro settles_intros quiet_utilD)

text \<open>
  A client that, under its condition \<open>ok\<close> (on the environment and the arguments) and with a
  complete context, never stops on a fault.
\<close>

locale safe_client = framed_client +
  fixes ok :: bool
  assumes op_safe: "ok \<Longrightarrow> settles (serves this) (op this)"
begin

lemma op_no_fault: "ok \<Longrightarrow> serves this s \<Longrightarrow> \<not> is_halt (fst (op this s))"
  using op_safe unfolding settles_def by blast

lemma op_serves: "ok \<Longrightarrow> serves this s \<Longrightarrow> serves this (snd (op this s))"
  using op_safe unfolding settles_def by blast

end

end
