(* ===== verification/CRS_Loading.thy ===== *)
theory CRS_Loading
  imports CRS_Operations
begin

text \<open>
  How the data trees are built (\<open>parseAndLoad\<close>, \<open>buildSampleBom\<close>, \<open>clonePersistentBom\<close> and
  \<open>buildComplementaryLinks\<close> of \<open>simcrs/service/SIMCRS_Service.cpp\<close>): in which order the other
  components are asked, and what depends on who owns the StdAir service. The specification
  is a plan, the list of the calls to make; the methods are shown to run their plan.
\<close>

section \<open>The methods\<close>

definition SIMCRS_buildComplementaryLinks :: "simcrs_service \<Rightarrow> BomRoot \<Rightarrow> ('s, unit) prog" where
  "SIMCRS_buildComplementaryLinks this ioBomRoot = ret ()"

definition SIMCRS_clonePersistentBom ::
  "'w apis \<Rightarrow> simcrs_service \<Rightarrow> (('w, 'x) crs_state_scheme, unit) prog" where
  "SIMCRS_clonePersistentBom A this = bindM (checked_context this) (\<lambda>c.
     bindM (getOwnStdairServiceFlag c) (\<lambda>doesOwnStdairService.
     bindM (getSTDAIR_Service c) (\<lambda>st.
     seqM (if doesOwnStdairService then on_world (stdair_clonePersistentBom (stdairA A) st)
           else ret ())
    (bindM (getAIRTSP_Service c) (\<lambda>ts.
     seqM (on_world (airtsp_clonePersistentBom (airtspA A) ts))
    (bindM (getAIRINV_Service c) (\<lambda>ai.
     seqM (on_world (airinv_clonePersistentBom (airinvA A) ai))
    (bindM (getSIMFQT_Service c) (\<lambda>fq.
     seqM (on_world (simfqt_clonePersistentBom (simfqtA A) fq))
    (bindM (on_world (stdair_getBomRoot (stdairA A) st)) (\<lambda>lBomRoot.
     SIMCRS_buildComplementaryLinks this lBomRoot)))))))))))"

definition SIMCRS_buildSampleBom ::
  "'w apis \<Rightarrow> simcrs_service \<Rightarrow> (('w, 'x) crs_state_scheme, unit) prog" where
  "SIMCRS_buildSampleBom A this = bindM (checked_context this) (\<lambda>c.
     bindM (getOwnStdairServiceFlag c) (\<lambda>doesOwnStdairService.
     bindM (getSTDAIR_Service c) (\<lambda>st.
     bindM (on_world (stdair_getPersistentBomRoot (stdairA A) st)) (\<lambda>lPersistentBomRoot.
     seqM (if doesOwnStdairService then on_world (stdair_buildSampleBom (stdairA A) st)
           else ret ())
    (bindM (getAIRTSP_Service c) (\<lambda>ts.
     seqM (on_world (airtsp_buildSampleBom (airtspA A) ts))
    (bindM (getAIRINV_Service c) (\<lambda>ai.
     seqM (on_world (airinv_buildSampleBom (airinvA A) ai))
    (bindM (getSIMFQT_Service c) (\<lambda>fq.
     seqM (on_world (simfqt_buildSampleBom (simfqtA A) fq))
    (seqM (SIMCRS_buildComplementaryLinks this lPersistentBomRoot)
          (if doesOwnStdairService then SIMCRS_clonePersistentBom A this
           else ret ()))))))))))))"

definition SIMCRS_parseAndLoad ::
  "'w apis \<Rightarrow> simcrs_service \<Rightarrow> string \<Rightarrow> string \<Rightarrow> string \<Rightarrow> string \<Rightarrow> string \<Rightarrow> string
   \<Rightarrow> (('w, 'x) crs_state_scheme, unit) prog" where
  "SIMCRS_parseAndLoad A this iScheduleInputFilepath iODInputFilepath iFRAT5InputFilepath
     iFFDisutilityInputFilepath iYieldInputFilepath iFareInputFilepath =
     bindM (checked_context this) (\<lambda>c.
     bindM (getOwnStdairServiceFlag c) (\<lambda>doesOwnStdairService.
     bindM (getSTDAIR_Service c) (\<lambda>st.
     bindM (on_world (stdair_getPersistentBomRoot (stdairA A) st)) (\<lambda>lPersistentBomRoot.
     bindM (getAIRTSP_Service c) (\<lambda>ts.
     seqM (on_world (airtsp_parseAndLoad (airtspA A) ts iScheduleInputFilepath))
    (bindM (getAIRINV_Service c) (\<lambda>ai.
     seqM (on_world (airinv_parseAndLoad (airinvA A) ai iScheduleInputFilepath
             iODInputFilepath iFRAT5InputFilepath iFFDisutilityInputFilepath
             iYieldInputFilepath))
    (bindM (getSIMFQT_Service c) (\<lambda>fq.
     seqM (on_world (simfqt_parseAndLoad (simfqtA A) fq iFareInputFilepath))
    (seqM (SIMCRS_buildComplementaryLinks this lPersistentBomRoot)
          (if doesOwnStdairService then SIMCRS_clonePersistentBom A this
           else ret ())))))))))))"

section \<open>Plans\<close>

text \<open>The calls that building the trees is made of.\<close>

datatype ext_call =
    Get_BomRoot svc
  | Get_PersistentBomRoot svc
  | StdAir_sample svc
  | StdAir_clone svc
  | AirTSP_parse svc string
  | AirTSP_sample svc
  | AirTSP_clone svc
  | AirInv_parse svc string string string string string
  | AirInv_sample svc
  | AirInv_clone svc
  | SimFQT_parse svc string
  | SimFQT_sample svc
  | SimFQT_clone svc

definition run_call :: "'w apis \<Rightarrow> ext_call \<Rightarrow> ('w, unit) prog" where
  "run_call A k = (case k of
      Get_BomRoot x \<Rightarrow> bindM (stdair_getBomRoot (stdairA A) x) (\<lambda>_. ret ())
    | Get_PersistentBomRoot x \<Rightarrow> bindM (stdair_getPersistentBomRoot (stdairA A) x) (\<lambda>_. ret ())
    | StdAir_sample x \<Rightarrow> stdair_buildSampleBom (stdairA A) x
    | StdAir_clone x \<Rightarrow> stdair_clonePersistentBom (stdairA A) x
    | AirTSP_parse x f \<Rightarrow> airtsp_parseAndLoad (airtspA A) x f
    | AirTSP_sample x \<Rightarrow> airtsp_buildSampleBom (airtspA A) x
    | AirTSP_clone x \<Rightarrow> airtsp_clonePersistentBom (airtspA A) x
    | AirInv_parse x f g h i j \<Rightarrow> airinv_parseAndLoad (airinvA A) x f g h i j
    | AirInv_sample x \<Rightarrow> airinv_buildSampleBom (airinvA A) x
    | AirInv_clone x \<Rightarrow> airinv_clonePersistentBom (airinvA A) x
    | SimFQT_parse x f \<Rightarrow> simfqt_parseAndLoad (simfqtA A) x f
    | SimFQT_sample x \<Rightarrow> simfqt_buildSampleBom (simfqtA A) x
    | SimFQT_clone x \<Rightarrow> simfqt_clonePersistentBom (simfqtA A) x)"

lemmas run_call_simps = run_call_def ext_call.case

fun run_calls :: "'w apis \<Rightarrow> ext_call list \<Rightarrow> ('w, unit) prog" where
  "run_calls A [] = ret ()"
| "run_calls A (k # ks) = seqM (run_call A k) (run_calls A ks)"

text \<open>
  The plans, for the handlers \<open>st\<close> (StdAir), \<open>ts\<close> (AirTSP), \<open>ai\<close> (AirInv), \<open>fq\<close> (SimFQT) and
  the flag \<open>own\<close> (SimCRS owns StdAir).
\<close>

definition clone_plan :: "bool \<Rightarrow> svc \<Rightarrow> svc \<Rightarrow> svc \<Rightarrow> svc \<Rightarrow> ext_call list" where
  "clone_plan own st ts ai fq = (if own then [StdAir_clone st] else []) @
     [AirTSP_clone ts, AirInv_clone ai, SimFQT_clone fq, Get_BomRoot st]"

definition sample_plan :: "bool \<Rightarrow> svc \<Rightarrow> svc \<Rightarrow> svc \<Rightarrow> svc \<Rightarrow> ext_call list" where
  "sample_plan own st ts ai fq =
     [Get_PersistentBomRoot st] @ (if own then [StdAir_sample st] else []) @
     [AirTSP_sample ts, AirInv_sample ai, SimFQT_sample fq] @
     (if own then clone_plan own st ts ai fq else [])"

definition parse_plan ::
  "string \<Rightarrow> string \<Rightarrow> string \<Rightarrow> string \<Rightarrow> string \<Rightarrow> string \<Rightarrow> bool \<Rightarrow> svc \<Rightarrow> svc \<Rightarrow> svc \<Rightarrow> svc
   \<Rightarrow> ext_call list" where
  "parse_plan sched od frat5 ffd yld fare own st ts ai fq =
     [Get_PersistentBomRoot st, AirTSP_parse ts sched, AirInv_parse ai sched od frat5 ffd yld,
      SimFQT_parse fq fare] @
     (if own then clone_plan own st ts ai fq else [])"

section \<open>Running a plan\<close>

text \<open>
  \<open>performs this c P m\<close>: in every state in which the context of \<open>this\<close> is alive and equal to
  \<open>c\<close>, the method \<open>P\<close> does to the external components what \<open>m\<close> does, and nothing else.
\<close>

definition performs ::
  "simcrs_service \<Rightarrow> service_context \<Rightarrow> (('w, 'x) crs_state_scheme, 'a) prog \<Rightarrow> ('w, 'a) prog
   \<Rightarrow> bool" where
  "performs this c P m \<longleftrightarrow> (\<forall>s a. simcrsServiceContext this = Some a \<longrightarrow>
     contexts s a = Some c \<longrightarrow> P s = on_world m s)"

lemma performsD:
  "performs this c P m \<Longrightarrow> simcrsServiceContext this = Some a \<Longrightarrow> contexts s a = Some c \<Longrightarrow>
   P s = on_world m s"
  by (simp add: performs_def)

named_theorems performs_intros "rules that find the external calls of a method"

lemma performs_on_world [performs_intros]: "performs this c (on_world m) m"
  by (simp add: performs_def)

lemma performs_ret [performs_intros]: "performs this c (ret x) (ret x)"
  by (simp add: performs_def on_world_def)

lemma performs_bindM [performs_intros]:
  assumes "performs this c P m" and "\<And>x. performs this c (f x) (g x)"
  shows "performs this c (bindM P f) (bindM m g)"
  using assms unfolding performs_def
  by (auto simp: bindM_cases on_world_def split: prod.split outcome.split)

lemma performs_seqM [performs_intros]:
  "performs this c P m \<Longrightarrow> performs this c Q n \<Longrightarrow> performs this c (seqM P Q) (seqM m n)"
  unfolding seqM_def by (rule performs_bindM)

lemma performs_checked [performs_intros]:
  assumes "performs this c (f c) m"
  shows "performs this c (bindM (checked_context this) f) m"
  using assms by (simp add: performs_def bindM_cases checked_context_cases)

text \<open>A context with the handlers of a plan.\<close>

definition handlers :: "service_context \<Rightarrow> bool \<Rightarrow> svc \<Rightarrow> svc \<Rightarrow> svc \<Rightarrow> svc \<Rightarrow> bool" where
  "handlers c own st ts ai fq \<longleftrightarrow> ownStdairService c = Some own \<and> stdairService c = Some st \<and>
     airtspService c = Some ts \<and> airinvService c = Some ai \<and> simfqtService c = Some fq"

lemma performs_handlers:
  assumes "handlers c own st ts ai fq"
  shows "performs this c (f own) m \<Longrightarrow> performs this c (bindM (getOwnStdairServiceFlag c) f) m"
    "performs this c (g st) n \<Longrightarrow> performs this c (bindM (getSTDAIR_Service c) g) n"
    "performs this c (g ts) n \<Longrightarrow> performs this c (bindM (getAIRTSP_Service c) g) n"
    "performs this c (g ai) n \<Longrightarrow> performs this c (bindM (getAIRINV_Service c) g) n"
    "performs this c (g fq) n \<Longrightarrow> performs this c (bindM (getSIMFQT_Service c) g) n"
  using assms by (simp_all add: handlers_def getter_defs)

lemma run_calls_append: "run_calls A (ks @ ls) = seqM (run_calls A ks) (run_calls A ls)"
  by (induction ks) (simp_all add: seqM_assoc del: run_simps)

lemma seqM_skip: "seqM m (ret ()) = m"
  by (simp add: seqM_def del: run_simps)

lemma performs_if [performs_intros]:
  "performs this c P m \<Longrightarrow> performs this c Q n \<Longrightarrow>
   performs this c (if b then P else Q) (if b then m else n)"
  by simp

lemma run_calls_if: "run_calls A (if b then ks else []) = (if b then run_calls A ks else ret ())"
  by simp

lemma clone_performs:
  assumes "handlers c own st ts ai fq"
  shows "performs this c (SIMCRS_clonePersistentBom A this)
    (run_calls A (clone_plan own st ts ai fq))"
  unfolding SIMCRS_clonePersistentBom_def clone_plan_def run_calls_append run_calls_if
    SIMCRS_buildComplementaryLinks_def run_calls.simps run_call_simps seqM_skip
  by (rule performs_checked performs_handlers [OF assms] performs_intros)+

lemma sample_performs:
  assumes "handlers c own st ts ai fq"
  shows "performs this c (SIMCRS_buildSampleBom A this)
    (run_calls A (sample_plan own st ts ai fq))"
  unfolding SIMCRS_buildSampleBom_def sample_plan_def run_calls_append run_calls_if
    SIMCRS_buildComplementaryLinks_def run_calls.simps run_call_simps seqM_skip
  by (simp add: seqM_skip seqM_def bindM_assoc del: run_simps split del: if_split)
    (rule performs_checked performs_handlers [OF assms] clone_performs [OF assms]
      performs_intros)+

lemma parse_performs:
  assumes "handlers c own st ts ai fq"
  shows "performs this c (SIMCRS_parseAndLoad A this sched od frat5 ffd yld fare)
    (run_calls A (parse_plan sched od frat5 ffd yld fare own st ts ai fq))"
  unfolding SIMCRS_parseAndLoad_def parse_plan_def run_calls_append run_calls_if
    SIMCRS_buildComplementaryLinks_def run_calls.simps run_call_simps seqM_skip
  by (simp add: seqM_skip seqM_def bindM_assoc del: run_simps split del: if_split)
    (rule performs_checked performs_handlers [OF assms] clone_performs [OF assms]
      performs_intros)+

lemma handlers_complete:
  assumes "context_complete c"
  obtains own st ts ai fq where "handlers c own st ts ai fq"
  using assms by (elim complete_getters) (auto simp: handlers_def)

lemma sample_handlers: "handlers (sample_context own) own 0 2 3 1"
  by (simp add: handlers_def sample_context_def)

section \<open>Properties\<close>

text \<open>
  Building the sample tree is the run of a plan: whatever the other components do, the
  method makes the calls of \<open>sample_plan\<close> in order, stops at the first one that does not
  return with the outcome of that call, and leaves the memory of SimCRS as it was. StdAir's
  own tree is built, and the persistent trees are cloned, exactly when SimCRS owns StdAir.
\<close>

lemma sample_runs_plan:
  assumes "simcrsServiceContext this = Some a" and "contexts s a = Some c"
    and "handlers c own st ts ai fq"
  shows "SIMCRS_buildSampleBom A this s
    = on_world (run_calls A (sample_plan own st ts ai fq)) s"
  by (rule performsD [OF sample_performs [OF assms(3)] assms(1,2)])

text \<open>
  Parsing the input files is the run of a plan: the schedule goes to AirTSP, then the
  schedule with the O&D, FRAT5, disutility and yield files to AirInv, then the fares to
  SimFQT; the persistent trees are cloned only when SimCRS owns StdAir.
\<close>

lemma parse_runs_plan:
  assumes "simcrsServiceContext this = Some a" and "contexts s a = Some c"
    and "handlers c own st ts ai fq"
  shows "SIMCRS_parseAndLoad A this sched od frat5 ffd yld fare s
    = on_world (run_calls A (parse_plan sched od frat5 ffd yld fare own st ts ai fq)) s"
  by (rule performsD [OF parse_performs [OF assms(3)] assms(1,2)])

text \<open>
  Cloning the persistent trees is the run of a plan: AirTSP, AirInv and SimFQT clone in
  that order, after StdAir when SimCRS owns it, and the non-persistent root is asked for last.
\<close>

lemma clone_runs_plan:
  assumes "simcrsServiceContext this = Some a" and "contexts s a = Some c"
    and "handlers c own st ts ai fq"
  shows "SIMCRS_clonePersistentBom A this s
    = on_world (run_calls A (clone_plan own st ts ai fq)) s"
  by (rule performsD [OF clone_performs [OF assms(3)] assms(1,2)])

text \<open>The calls of a plan up to the first one that does not return.\<close>

lemma run_calls_Throw_iff:
  "run_calls A ks w = (Throw e, w') \<longleftrightarrow>
   (\<exists>k < length ks. \<exists>v. run_calls A (take k ks) w = (Ret (), v) \<and>
      run_call A (ks ! k) v = (Throw e, w'))"
proof (induction ks arbitrary: w)
  case Nil
  then show ?case by simp
next
  case (Cons k ks)
  obtain r w1 where run: "run_call A k w = (r, w1)" by (cases "run_call A k w")
  have ex: "(\<exists>j < length (k # ks). P j) \<longleftrightarrow> P 0 \<or> (\<exists>j < length ks. P (Suc j))" for P
    by (auto simp: less_Suc_eq_0_disj)
  show ?case
    unfolding ex using run Cons.IH [of w1] by (cases r) (simp_all add: seqM_cases)
qed

text \<open>An environment in which the inventory refuses to build its sample.\<close>

definition closed_inventory :: "echo apis" where
  "closed_inventory = (echo_apis (\<lambda>_. True) [])\<lparr>airinvA := (airinvA (echo_apis (\<lambda>_. True) []))
     \<lparr>airinv_buildSampleBom := \<lambda>_. raise (ExternalException ''closed'')\<rparr>\<rparr>"

text \<open>
  C29. An exception while the sample tree is built leaves it half built at a known place: with
  a live context that holds the handlers, the method throws exactly when some call of the plan
  throws after those before it returned, and the components are then as that prefix of the
  plan and the failing call left them; no later component is asked.
\<close>

theorem sample_exception_prefix:
  assumes "simcrsServiceContext this = Some a" and "contexts s a = Some c"
    and "handlers c own st ts ai fq"
  shows "SIMCRS_buildSampleBom A this s = (Throw e, t) \<longleftrightarrow>
    (\<exists>k < length (sample_plan own st ts ai fq). \<exists>v w'.
       run_calls A (take k (sample_plan own st ts ai fq)) (world s) = (Ret (), v) \<and>
       run_call A (sample_plan own st ts ai fq ! k) v = (Throw e, w') \<and> t = s\<lparr>world := w'\<rparr>)"
proof -
  have "SIMCRS_buildSampleBom A this s = on_world (run_calls A (sample_plan own st ts ai fq)) s"
    by (rule performsD [OF sample_performs [OF assms(3)] assms(1,2)])
  then have "SIMCRS_buildSampleBom A this s = (Throw e, t) \<longleftrightarrow>
      (\<exists>w'. run_calls A (sample_plan own st ts ai fq) (world s) = (Throw e, w') \<and>
            t = s\<lparr>world := w'\<rparr>)"
    by (auto simp: on_world_def split: prod.split)
  then show ?thesis unfolding run_calls_Throw_iff by blast
qed

theorem sample_exception_prefix_witness:
  "SIMCRS_buildSampleBom closed_inventory sample_service (sample_state False) =
     (Throw (ExternalException ''closed''), (sample_state False)\<lparr>world :=
        (fst (world (sample_state False)) @ [(''persistentBomRoot'', 0), (''airtsp.sample'', 2)],
         snd (world (sample_state False)))\<rparr>)"
  by (rule iffD2 [OF sample_exception_prefix [OF sample_pointer sample_alive sample_handlers]],
      rule exI [of _ 2])
    (simp add: sample_plan_def run_call_def closed_inventory_def echo_apis_def seqM_cases
      bindM_cases note_call_def numeral_2_eq_2 split_def)

text \<open>
  C30. A service that shares its StdAir never asks it to build or to clone: with any other
  builder and cloner in StdAir's place, the three methods do exactly the same, from every
  state.
\<close>

theorem shared_leaves_StdAir_alone:
  assumes "simcrsServiceContext this = Some a" and "contexts s a = Some c"
    and "handlers c False st ts ai fq"
    and "B = A\<lparr>stdairA := (stdairA A)\<lparr>stdair_buildSampleBom := build,
                                    stdair_clonePersistentBom := clone\<rparr>\<rparr>"
  shows "SIMCRS_buildSampleBom A this s = SIMCRS_buildSampleBom B this s \<and>
    SIMCRS_parseAndLoad A this sched od frat5 ffd yld fare s
      = SIMCRS_parseAndLoad B this sched od frat5 ffd yld fare s \<and>
    SIMCRS_clonePersistentBom A this s = SIMCRS_clonePersistentBom B this s"
proof (intro conjI)
  have plans: "run_calls A (sample_plan False st ts ai fq)
      = run_calls B (sample_plan False st ts ai fq)"
    "run_calls A (parse_plan sched od frat5 ffd yld fare False st ts ai fq)
      = run_calls B (parse_plan sched od frat5 ffd yld fare False st ts ai fq)"
    "run_calls A (clone_plan False st ts ai fq) = run_calls B (clone_plan False st ts ai fq)"
    using assms(4)
    by (simp_all add: sample_plan_def parse_plan_def clone_plan_def run_call_def
        del: run_simps)
  note perf = sample_performs [OF assms(3), THEN performsD, OF assms(1,2)]
    parse_performs [OF assms(3), THEN performsD, OF assms(1,2)]
    clone_performs [OF assms(3), THEN performsD, OF assms(1,2)]
  show "SIMCRS_buildSampleBom A this s = SIMCRS_buildSampleBom B this s"
    by (simp only: perf plans)
  show "SIMCRS_parseAndLoad A this sched od frat5 ffd yld fare s
       = SIMCRS_parseAndLoad B this sched od frat5 ffd yld fare s"
    by (simp only: perf plans)
  show "SIMCRS_clonePersistentBom A this s = SIMCRS_clonePersistentBom B this s"
    by (simp only: perf plans)
qed

theorem shared_leaves_StdAir_alone_witness:
  "SIMCRS_clonePersistentBom (echo_apis (\<lambda>_. True) []) sample_service (sample_state False)
   = SIMCRS_clonePersistentBom ((echo_apis (\<lambda>_. True) [])\<lparr>stdairA :=
       (stdairA (echo_apis (\<lambda>_. True) []))\<lparr>stdair_buildSampleBom := \<lambda>_. raise BookingException,
          stdair_clonePersistentBom := \<lambda>_. raise BookingException\<rparr>\<rparr>)
       sample_service (sample_state False)"
  using shared_leaves_StdAir_alone [OF sample_pointer sample_alive sample_handlers refl]
  by blast

end
