(* ===== verification/CRS_Handlers.thy ===== *)
theory CRS_Handlers
  imports CRS_Service
begin

text \<open>
  The initialisation of the handlers as a program on one context and the outside world: what
  \<open>init_handlers\<close> does to the memory of SimCRS is done to the context of the service alone.
  For each handler the constructor of its class is called, with a copy of the pointer on
  StdAir that is kept until the step ends; the context takes a copy of the new pointer; and
  the local pointers are given up, whatever way the rest ends.
\<close>

section \<open>Programs on one context\<close>

definition at_context ::
  "addr \<Rightarrow> (service_context \<times> 'w, 'a) prog \<Rightarrow> (('w, 'x) crs_state_scheme, 'a) prog" where
  "at_context a m = (\<lambda>s. case contexts s a of
      None \<Rightarrow> (Halt (Undefined Dangling), s)
    | Some c \<Rightarrow> (case m (c, world s) of
        (r, d, w) \<Rightarrow> (r, s\<lparr>contexts := (contexts s)(a \<mapsto> d), world := w\<rparr>)))"

lemma at_context_run:
  "contexts s a = Some c \<Longrightarrow> m (c, world s) = (r, d, w) \<Longrightarrow>
   at_context a m s = (r, s\<lparr>contexts := (contexts s)(a \<mapsto> d), world := w\<rparr>)"
  by (simp add: at_context_def)

lemma at_context_seq: "seqM (at_context a m) (at_context a n) = at_context a (seqM m n)"
  by (rule ext) (auto simp: at_context_def seqM_cases split: option.split prod.split outcome.split)

text \<open>
  \<open>took_in A p old x\<close>: the pointer to \<open>x\<close> is passed to the setter and replaces \<open>old\<close>, then the
  local pointers to \<open>x\<close> and \<open>p\<close> are given up.
\<close>

definition took_in :: "'w apis \<Rightarrow> sptr \<Rightarrow> sptr \<Rightarrow> svc \<Rightarrow> 'w \<Rightarrow> 'w" where
  "took_in A p old x w = give_sptr A p (give_sptr A (Some x)
     (pass_sptr A (Some x) (assign_sptr A old (Some x)) w))"

definition hire ::
  "'w apis \<Rightarrow> (service_context \<Rightarrow> ('w, svc) prog) \<Rightarrow> (service_context \<Rightarrow> sptr)
   \<Rightarrow> (sptr \<Rightarrow> service_context \<Rightarrow> service_context) \<Rightarrow> (service_context \<times> 'w, unit) prog" where
  "hire A mk get put = (\<lambda>(c, w). case mk c (take_sptr A (stdairService c) w) of
      (Ret x, v) \<Rightarrow> (Ret (), put (Some x) c, took_in A (stdairService c) (get c) x v)
    | (Throw e, v) \<Rightarrow> (Throw e, c, give_sptr A (stdairService c) v)
    | (Halt b, v) \<Rightarrow> (Halt b, c, v))"

definition inventory_make :: "'w apis \<Rightarrow> service_context \<Rightarrow> ('w, svc) prog" where
  "inventory_make A c = (if ownSEVMGRService c then airinv_make (airinvA A) (stdairService c)
     else held_sptr A (sevmgrService c) (seqM (assertM (sevmgrService c \<noteq> None))
       (airinv_make_sevmgr (airinvA A) (stdairService c) (sevmgrService c))))"

definition hire_all :: "'w apis \<Rightarrow> (service_context \<times> 'w, unit) prog" where
  "hire_all A =
     seqM (hire A (\<lambda>c. simfqt_make (simfqtA A) (stdairService c)) simfqtService setSIMFQT_Service)
    (seqM (hire A (\<lambda>c. airtsp_make (airtspA A) (stdairService c)) airtspService setAIRTSP_Service)
          (hire A (inventory_make A) airinvService setAIRINV_Service))"

lemma asserted_on_world: "seqM (assertM b) (on_world m) = on_world (seqM (assertM b) m)"
  by (rule ext) (simp add: on_world_def assertM_def)

text \<open>Each step of the code is one hiring at the context of the service.\<close>

lemma install_handler:
  fixes A :: "'w apis"
  assumes "simcrsServiceContext this = Some a"
  shows "bindM (asserted_context this) (\<lambda>(b, c). with_copy A (stdairService c)
      (bindM (on_world (mk c)) (\<lambda>x.
        with_sptr A (Some x) (store_sptr A b (get c) (Some x) (put (Some x))))))
    = at_context a (hire A mk get put)"
proof
  fix s :: "('w, 'x) crs_state_scheme"
  show "bindM (asserted_context this) (\<lambda>(b, c). with_copy A (stdairService c)
      (bindM (on_world (mk c)) (\<lambda>x.
        with_sptr A (Some x) (store_sptr A b (get c) (Some x) (put (Some x)))))) s
    = at_context a (hire A mk get put) s"
    using assms
    by (cases "contexts s a") (auto simp: at_context_def hire_def took_in_def bindM_cases
        on_world_def with_copy_run with_sptr_def finally_world_def finally_do_def fun_upd_idem
        split: prod.splits outcome.splits)
qed

lemma init_steps_at:
  fixes A :: "'w apis"
  assumes "simcrsServiceContext this = Some a"
  shows "initSIMFQTService A this = at_context a
      (hire A (\<lambda>c. simfqt_make (simfqtA A) (stdairService c)) simfqtService setSIMFQT_Service)"
    and "initAIRTSPService A this = at_context a
      (hire A (\<lambda>c. airtsp_make (airtspA A) (stdairService c)) airtspService setAIRTSP_Service)"
    and "initAIRINVService A this = at_context a
      (hire A (inventory_make A) airinvService setAIRINV_Service)"
proof -
  show "initSIMFQTService A this = at_context a
      (hire A (\<lambda>c. simfqt_make (simfqtA A) (stdairService c)) simfqtService setSIMFQT_Service)"
    unfolding initSIMFQTService_def getSTDAIR_ServicePtr_def Let_def by (rule install_handler [OF assms])
  show "initAIRTSPService A this = at_context a
      (hire A (\<lambda>c. airtsp_make (airtspA A) (stdairService c)) airtspService setAIRTSP_Service)"
    unfolding initAIRTSPService_def getSTDAIR_ServicePtr_def Let_def by (rule install_handler [OF assms])
  have mk: "(if getOwnSEVMGRServiceFlag c = False
      then let q = getSEVMGR_ServicePtr c in with_copy A q (seqM (assertM (q \<noteq> None))
             (on_world (airinv_make_sevmgr (airinvA A) (getSTDAIR_ServicePtr c) q)))
      else on_world (airinv_make (airinvA A) (getSTDAIR_ServicePtr c)))
    = (on_world (inventory_make A c) :: (('w, 'x) crs_state_scheme, svc) prog)" for c
    by (simp add: inventory_make_def getter_defs Let_def asserted_on_world with_copy_on_world)
  show "initAIRINVService A this = at_context a
      (hire A (inventory_make A) airinvService setAIRINV_Service)"
    unfolding initAIRINVService_def Let_def mk [unfolded Let_def]
    using install_handler [OF assms, of A "inventory_make A" airinvService setAIRINV_Service]
    by (simp add: getSTDAIR_ServicePtr_def)
qed

lemma init_handlers_at:
  "simcrsServiceContext this = Some a \<Longrightarrow>
   init_handlers A this = seqM (at_context a (hire_all A)) (ret this)"
  unfolding init_handlers_def init_steps_at initSimcrsService_def hire_all_def
  by (simp add: at_context_seq seqM_assoc [symmetric] del: run_simps)

section \<open>What hiring does to a context\<close>

text \<open>Each hiring gives the context one handler or leaves it as it is.\<close>

lemma hire_cases:
  assumes "hire A mk get put (c, w) = (r, d, v)"
  obtains x u where "mk c (take_sptr A (stdairService c) w) = (Ret x, u)" "r = Ret ()"
      "d = put (Some x) c" "v = took_in A (stdairService c) (get c) x u"
    | e u where "mk c (take_sptr A (stdairService c) w) = (Throw e, u)" "r = Throw e" "d = c"
      "v = give_sptr A (stdairService c) u"
    | b where "mk c (take_sptr A (stdairService c) w) = (Halt b, v)" "r = Halt b" "d = c"
  using assms by (auto simp: hire_def split: prod.splits outcome.splits)

lemma hire_all_keeps:
  assumes "hire_all A (c, w) = (r, d, v)"
  shows "stdairService d = stdairService c" "sevmgrService d = sevmgrService c"
    "CRSCode d = CRSCode c"
proof -
  have "keeps (\<lambda>(c, w). (stdairService c, sevmgrService c, CRSCode c)) (hire_all A)"
    unfolding hire_all_def
    by (intro keeps_intros)
      (auto simp: keeps_def hire_def setter_defs split: prod.splits outcome.splits)
  from keepsD [OF this assms]
  show "stdairService d = stdairService c" "sevmgrService d = sevmgrService c"
    "CRSCode d = CRSCode c" by simp_all
qed

lemma inventory_make_Ret:
  "inventory_make A c w = (Ret x, v) \<Longrightarrow> \<not> ownSEVMGRService c \<longrightarrow> sevmgrService c \<noteq> None"
  by (auto simp: inventory_make_def seqM_eq_Ret_iff simp del: held_sptr_None split: if_splits)

lemma hire_Ret_iff:
  "hire A mk get put (c, w) = (Ret y, d, v) \<longleftrightarrow>
     (\<exists>x u. mk c (take_sptr A (stdairService c) w) = (Ret x, u) \<and>
       d = put (Some x) c \<and> v = took_in A (stdairService c) (get c) x u)"
  by (auto simp: hire_def split: prod.splits outcome.splits)

lemma hire_all_Ret:
  assumes "hire_all A (c, w) = (Ret (), d, v)"
  obtains fq ts ai where "d = with_handlers fq ts ai c"
    "\<not> ownSEVMGRService c \<longrightarrow> sevmgrService c \<noteq> None"
proof -
  obtain fq ts ai w' v' where
    "inventory_make A (c\<lparr>simfqtService := Some fq, airtspService := Some ts\<rparr>) w' = (Ret ai, v')"
    "d = with_handlers fq ts ai c"
    using assms
    by (auto simp: hire_all_def seqM_eq_Ret_iff hire_Ret_iff setter_defs with_handlers_def)
  with inventory_make_Ret [OF this(1)] show thesis by (intro that) simp_all
qed

text \<open>The outcome is decided by the constructors of the handlers.\<close>

lemma hire_all_outcome:
  assumes fq: "\<And>w. \<exists>x v. simfqt_make (simfqtA A) (stdairService c) w = (Ret x, v)"
    and ts: "\<And>w. \<exists>x v. airtsp_make (airtspA A) (stdairService c) w = (Ret x, v)"
    and ai: "\<And>w. \<exists>x v. airinv_make (airinvA A) (stdairService c) w = (Ret x, v)"
    and ev: "\<And>w. \<exists>x v. airinv_make_sevmgr (airinvA A) (stdairService c) (sevmgrService c) w
      = (Ret x, v)"
  shows "fst (hire_all A (c, w)) = (if \<not> ownSEVMGRService c \<and> sevmgrService c = None
    then Halt AssertionFailure else Ret ())"
proof -
  let ?take = "take_sptr A (stdairService c)" and ?took = "took_in A (stdairService c)"
  obtain x1 w1 where 1: "simfqt_make (simfqtA A) (stdairService c) (?take w) = (Ret x1, w1)"
    using fq by blast
  let ?w1 = "?took (simfqtService c) x1 w1"
  obtain x2 w2 where 2: "airtsp_make (airtspA A) (stdairService c) (?take ?w1) = (Ret x2, w2)"
    using ts by blast
  let ?w2 = "?take (?took (airtspService c) x2 w2)"
  obtain x3 w3 where 3: "airinv_make (airinvA A) (stdairService c) ?w2 = (Ret x3, w3)"
    using ai by blast
  obtain x4 w4 where 4: "airinv_make_sevmgr (airinvA A) (stdairService c) (sevmgrService c)
      (take_sptr A (sevmgrService c) ?w2) = (Ret x4, w4)" using ev by blast
  show ?thesis
    by (simp add: hire_all_def seqM_cases hire_def 1 2 3 4 setter_defs inventory_make_def
        assertM_def held_sptr_def finally_do_def)
qed

end
