(* ===== verification/CRS_Lifetime.thy ===== *)
theory CRS_Lifetime
  imports CRS_Handlers
begin

text \<open>
  What the constructors and the destructor of \<open>SIMCRS_Service\<close> establish: the context of a
  constructed service is new and complete, an exception in a constructor leaves its context
  behind, a destructor releases every shared pointer and nothing else, and a clean-up of the
  factories before the destructor leaves it with a dangling pointer.
\<close>

section \<open>References held by all contexts\<close>

text \<open>
  How many shared pointers in live contexts keep the external service \<open>x\<close> alive.
\<close>

definition held_refs :: "svc \<Rightarrow> 'x mem_scheme \<Rightarrow> nat" where
  "held_refs x m = (\<Sum>a \<in> dom (contexts m). context_refs x (the (contexts m a)))"

lemma held_refs_world [simp]: "held_refs x (s\<lparr>world := w\<rparr>) = held_refs x s"
  by (simp add: held_refs_def)

lemma finite_contexts: "mem_ok m \<Longrightarrow> finite (dom (contexts m))"
proof -
  assume "mem_ok m"
  then have "dom (contexts m) \<subseteq> {..< nextAddr m}"
    using fresh_okD(4) [OF mem_okD(4)] by (metis domIff lessThan_iff not_le subsetI)
  then show ?thesis by (rule finite_subset) simp
qed

lemma held_refs_new:
  assumes "mem_ok s" "contexts s a = None" "contexts t = (contexts s)(a \<mapsto> c)"
  shows "held_refs x t = held_refs x s + context_refs x c"
proof -
  have "(\<Sum>b \<in> dom (contexts s). context_refs x (the (((contexts s)(a \<mapsto> c)) b)))
      = held_refs x s"
    unfolding held_refs_def using assms(2) by (intro sum.cong) (auto simp: domIff)
  then show ?thesis
    using assms finite_contexts [OF assms(1)] by (simp add: held_refs_def domIff)
qed

lemma held_refs_split:
  assumes "mem_ok s" "contexts s a = Some c"
  shows "held_refs x s = context_refs x c +
    (\<Sum>b \<in> dom (contexts s) - {a}. context_refs x (the (contexts s b)))"
  unfolding held_refs_def using assms
  by (subst sum.remove [OF finite_contexts, of s a]) (auto intro: domI)

lemma held_refs_update:
  assumes "mem_ok s" "contexts s a = Some c" "contexts t = (contexts s)(a \<mapsto> d)" "mem_ok t"
  shows "held_refs x t + context_refs x c = held_refs x s + context_refs x d"
proof -
  have "dom (contexts t) = dom (contexts s)"
    using assms(2,3) by (auto simp: insert_absorb domI)
  moreover have "(\<Sum>b \<in> dom (contexts s) - {a}. context_refs x (the (contexts t b)))
      = (\<Sum>b \<in> dom (contexts s) - {a}. context_refs x (the (contexts s b)))"
    using assms(3) by (intro sum.cong) auto
  ultimately show ?thesis
    using held_refs_split [OF assms(1,2)] held_refs_split [OF assms(4), of a d] assms(3) by simp
qed

text \<open>The memory of the factories decides what the invariant and the reference counts say.\<close>

lemma mem_ok_truncate: "mem_ok (mem.truncate s) = mem_ok s"
  by (simp add: mem_ok_def service_layer_ok_def singletons_ok_def fresh_ok_def mem.defs
      cong: option.case_cong)

lemma same_memory:
  assumes "mem.truncate t = mem.truncate s"
  shows "mem_ok t = mem_ok s" "contexts t = contexts s" "held_refs x t = held_refs x s"
proof -
  show "mem_ok t = mem_ok s" using assms mem_ok_truncate by metis
  show c: "contexts t = contexts s" using assms by (simp add: mem.defs)
  show "held_refs x t = held_refs x s" by (simp add: held_refs_def c)
qed

section \<open>Constructors\<close>

text \<open>
  \<open>constructed s crs this t c\<close>: the step from \<open>s\<close> to \<open>t\<close> has added one context \<open>c\<close>, at a new
  address, with the CRS code \<open>crs\<close>, to the end of the factory's pool, and \<open>this\<close> points to it.
\<close>

definition constructed ::
  "'x mem_scheme \<Rightarrow> CRSCode_T \<Rightarrow> simcrs_service \<Rightarrow> 'x mem_scheme \<Rightarrow> service_context \<Rightarrow> bool" where
  "constructed s crs this t c \<longleftrightarrow> mem_ok t \<and> CRSCode c = crs \<and>
     (\<exists>a. simcrsServiceContext this = Some a \<and> contexts s a = None \<and>
          contexts t = (contexts s)(a \<mapsto> c) \<and> context_pool t = context_pool s @ [Some a])"

lemma constructed_world [simp]:
  "constructed (s\<lparr>world := w\<rparr>) crs this t c = constructed s crs this t c"
  by (simp add: constructed_def)

lemma constructed_after [simp]:
  "constructed s crs this (t\<lparr>world := w\<rparr>) c = constructed s crs this t c"
  by (simp add: constructed_def)

lemma with_handlers_fields [simp]:
  "stdairService (with_handlers fq ts ai c) = stdairService c"
  "ownStdairService (with_handlers fq ts ai c) = ownStdairService c"
  "sevmgrService (with_handlers fq ts ai c) = sevmgrService c"
  "ownSEVMGRService (with_handlers fq ts ai c) = ownSEVMGRService c"
  "CRSCode (with_handlers fq ts ai c) = CRSCode c"
  "airtspService (with_handlers fq ts ai c) = Some ts"
  "airinvService (with_handlers fq ts ai c) = Some ai"
  "simfqtService (with_handlers fq ts ai c) = Some fq"
  by (simp_all add: with_handlers_def)

lemma make_fields [simp]:
  "stdairService (ServiceContext_make crs) = None"
  "ownStdairService (ServiceContext_make crs) = None"
  "sevmgrService (ServiceContext_make crs) = None"
  "ownSEVMGRService (ServiceContext_make crs)"
  "CRSCode (ServiceContext_make crs) = crs"
  by (simp_all add: ServiceContext_make_def)

text \<open>
  What the constructors have in common: a new context, then one or two setters (together
  the update \<open>f\<close> of the context), then the handlers.
\<close>

definition construct_tail ::
  "'w apis \<Rightarrow> (simcrs_service \<Rightarrow> (('w, 'x) crs_state_scheme, unit) prog) \<Rightarrow> CRSCode_T
   \<Rightarrow> (('w, 'x) crs_state_scheme, simcrs_service) prog" where
  "construct_tail A attach crs =
     bindM (initServiceContext crs) (\<lambda>this. seqM (attach this) (init_handlers A this))"

definition attaches ::
  "(service_context \<Rightarrow> service_context) \<Rightarrow> ('w \<Rightarrow> 'w)
   \<Rightarrow> (simcrs_service \<Rightarrow> (('w, 'x) crs_state_scheme, unit) prog) \<Rightarrow> bool"
where
  "attaches f g attach \<longleftrightarrow> (\<forall>this a u crs. simcrsServiceContext this = Some a \<longrightarrow>
     contexts u a = Some (ServiceContext_make crs) \<longrightarrow>
     attach this u = (Ret (), u\<lparr>contexts := (contexts u)(a \<mapsto> f (ServiceContext_make crs)),
                               world := g (world u)\<rparr>))"

lemma more_world:
  "mem.more u = mem.more s \<Longrightarrow> world u = world s"
  "mem.more u = mem.more s \<Longrightarrow> crs_state.more u = crs_state.more s"
  by (cases u; cases s; simp)+

text \<open>What attaching a shared pointer to a new context does to the outside world.\<close>

definition attached :: "'w apis \<Rightarrow> sptr \<Rightarrow> 'w \<Rightarrow> 'w" where
  "attached A p = pass_sptr A p (pass_sptr A p (assign_sptr A None p))"

lemma attaches_StdAir:
  "attaches (setSTDAIR_Service p own) (attached A p)
     (\<lambda>this. addStdAirService A this p own)"
  by (simp add: attaches_def addStdAirService_def bindM_cases with_copy_run with_sptr_def
      finally_world_def finally_do_def attached_def pass_sptr_def)

lemma attaches_both:
  "attaches (setSEVMGR_Service q own' \<circ> setSTDAIR_Service p own)
     (attached A q \<circ> attached A p)
     (\<lambda>this. seqM (addStdAirService A this p own) (addSEVMGRService A this q own'))"
  by (simp add: attaches_def addStdAirService_def addSEVMGRService_def bindM_cases seqM_cases
      setter_defs with_copy_run with_sptr_def finally_world_def finally_do_def attached_def
      pass_sptr_def)

lemma log_tail:
  "SIMCRS_Service_log A lp crs = bindM (initStdAirService A lp)
     (\<lambda>p. with_sptr A p (construct_tail A (\<lambda>this. addStdAirService A this p True) crs))"
  by (simp add: SIMCRS_Service_log_def construct_tail_def)

lemma db_tail:
  "SIMCRS_Service_db A lp dp crs = bindM (initStdAirService_db A lp dp)
     (\<lambda>p. with_sptr A p (construct_tail A (\<lambda>this. addStdAirService A this p True) crs))"
  by (simp add: SIMCRS_Service_db_def construct_tail_def)

lemma shared_tail:
  "SIMCRS_Service_shared A p q crs = with_copy A p (with_copy A q (construct_tail A (\<lambda>this.
     seqM (addStdAirService A this p False) (addSEVMGRService A this q False)) crs))"
  by (simp add: SIMCRS_Service_shared_def construct_tail_def seqM_assoc)

text \<open>
  The rest of a constructor, from a good memory: it ends as the hiring of the handlers does on
  a new context, and whatever way it ends, that context is in the pool of the factory with
  what it holds then, and nothing else of the memory has changed.
\<close>

lemma construct_tail_run:
  assumes ok: "mem_ok s" and att: "attaches f g attach"
    and run: "construct_tail A attach crs s = (q, t)"
  obtains a r d where "hire_all A (f (ServiceContext_make crs), g (world s)) = (r, d, world t)"
    "q = map_outcome (\<lambda>_. \<lparr>simcrsServiceContext = Some a\<rparr>) r"
    "mem_ok t" "contexts s a = None" "contexts t = (contexts s)(a \<mapsto> d)"
    "context_pool t = context_pool s @ [Some a]" "crs_state.more t = crs_state.more s"
proof -
  obtain a v where v: "initServiceContext crs s = (Ret \<lparr>simcrsServiceContext = Some a\<rparr>, v)"
    "mem_ok v" "contexts s a = None" "contexts v = (contexts s)(a \<mapsto> ServiceContext_make crs)"
    "mem.more v = mem.more s" "context_pool v = context_pool s @ [Some a]"
    using initServiceContext_run [OF ok] by blast
  note more = more_world [OF v(5)]
  let ?c = "f (ServiceContext_make crs)" and ?svc = "\<lparr>simcrsServiceContext = Some a\<rparr>"
  let ?u = "v\<lparr>contexts := (contexts v)(a \<mapsto> ?c), world := g (world v)\<rparr>"
  have c: "contexts v a = Some (ServiceContext_make crs)" using v(4) by simp
  obtain r d w where hire: "hire_all A (?c, g (world s)) = (r, d, w)" by (metis prod.exhaust)
  have "attach ?svc v = (Ret (), ?u)" using att c unfolding attaches_def by simp
  then have "construct_tail A attach crs s = seqM (at_context a (hire_all A)) (ret ?svc) ?u"
    by (simp add: construct_tail_def bindM_cases v(1) seqM_cases [of "attach x" for x]
        init_handlers_at [of ?svc a])
  also have "\<dots> = (map_outcome (\<lambda>_. ?svc) r, ?u\<lparr>contexts := (contexts v)(a \<mapsto> d), world := w\<rparr>)"
    using at_context_run [of ?u a ?c "hire_all A" r d w] hire
    by (cases r) (simp_all add: seqM_cases more(1))
  finally have t: "q = map_outcome (\<lambda>_. ?svc) r"
    "t = v\<lparr>contexts := (contexts v)(a \<mapsto> d), world := w\<rparr>"
    using run by simp_all
  show thesis
  proof (rule that [of r d a])
    show "mem_ok t" using v(2) mem_ok_update_context [OF c] by (simp add: t(2))
    show "context_pool t = context_pool s @ [Some a]"
      using v(6) by (simp add: t(2))
  qed (use v t hire more in simp_all)
qed

lemma construct_tail_Ret:
  assumes ok: "mem_ok s" and att: "attaches f g attach" and crs: "\<And>c. CRSCode (f c) = CRSCode c"
    and run: "construct_tail A attach crs s = (Ret this, t)"
  shows "(\<not> ownSEVMGRService (f (ServiceContext_make crs)) \<longrightarrow>
            sevmgrService (f (ServiceContext_make crs)) \<noteq> None) \<and>
    (\<exists>fq ts ai. constructed s crs this t (with_handlers fq ts ai (f (ServiceContext_make crs))))"
  using ok att run
proof (rule construct_tail_run)
  fix a r d
  assume t: "hire_all A (f (ServiceContext_make crs), g (world s)) = (r, d, world t)"
    "Ret this = map_outcome (\<lambda>_. \<lparr>simcrsServiceContext = Some a\<rparr>) r"
    "mem_ok t" "contexts s a = None" "contexts t = (contexts s)(a \<mapsto> d)"
    "context_pool t = context_pool s @ [Some a]"
  then have svc: "r = Ret ()" "simcrsServiceContext this = Some a" by (cases r; simp)+
  obtain fq ts ai where d: "d = with_handlers fq ts ai (f (ServiceContext_make crs))"
    "\<not> ownSEVMGRService (f (ServiceContext_make crs)) \<longrightarrow>
      sevmgrService (f (ServiceContext_make crs)) \<noteq> None"
    by (rule hire_all_Ret [OF t(1) [unfolded svc(1)]])
  have "constructed s crs this t d"
    using t(3-6) svc(2) by (simp add: constructed_def d(1) crs)
  with d show ?thesis by blast
qed

lemma construct_tail_any:
  assumes ok: "mem_ok s" and att: "attaches f g attach"
    and run: "construct_tail A attach crs s = (q, t)"
  obtains a d where "mem_ok t" "contexts s a = None" "contexts t = (contexts s)(a \<mapsto> d)"
    "context_pool t = context_pool s @ [Some a]"
    "stdairService d = stdairService (f (ServiceContext_make crs))"
    "sevmgrService d = sevmgrService (f (ServiceContext_make crs))"
  using construct_tail_run [OF ok att run] hire_all_keeps by metis

section \<open>Runs in which the external constructors return\<close>

text \<open>
  The documented behaviour of \<open>make_shared\<close> on services whose constructors do not throw: the
  call returns an object.
\<close>

definition makes_return :: "'w apis \<Rightarrow> bool" where
  "makes_return A \<longleftrightarrow>
     (\<forall>lp w. \<exists>x w'. stdair_make (stdairA A) lp w = (Ret x, w')) \<and>
     (\<forall>lp dp w. \<exists>x w'. stdair_make_db (stdairA A) lp dp w = (Ret x, w')) \<and>
     (\<forall>p w. \<exists>x w'. simfqt_make (simfqtA A) p w = (Ret x, w')) \<and>
     (\<forall>p w. \<exists>x w'. airtsp_make (airtspA A) p w = (Ret x, w')) \<and>
     (\<forall>p w. \<exists>x w'. airinv_make (airinvA A) p w = (Ret x, w')) \<and>
     (\<forall>p q w. \<exists>x w'. airinv_make_sevmgr (airinvA A) p q w = (Ret x, w'))"

lemma makes_return_echo: "makes_return (echo_apis ok sols)"
  by (auto simp: makes_return_def echo_apis_def make_svc_def)

lemma construct_tail_outcome:
  assumes ok: "mem_ok s" and att: "attaches f g attach" and mk: "makes_return A"
  obtains this where "fst (construct_tail A attach crs s) =
    (if \<not> ownSEVMGRService (f (ServiceContext_make crs)) \<and>
        sevmgrService (f (ServiceContext_make crs)) = None
     then Halt AssertionFailure else Ret this)"
proof -
  obtain q t where run: "construct_tail A attach crs s = (q, t)" by fastforce
  let ?c = "f (ServiceContext_make crs)"
  obtain a r d where t: "hire_all A (?c, g (world s)) = (r, d, world t)"
    "q = map_outcome (\<lambda>_. \<lparr>simcrsServiceContext = Some a\<rparr>) r"
    by (rule construct_tail_run [OF ok att run])
  have "fst (hire_all A (?c, g (world s))) = (if \<not> ownSEVMGRService ?c \<and> sevmgrService ?c = None
      then Halt AssertionFailure else Ret ())"
    by (rule hire_all_outcome) (use mk in \<open>auto simp: makes_return_def\<close>)
  with t that run show thesis by (auto split: if_splits)
qed

lemma new_contexts_complete:
  "context_complete (with_handlers fq ts ai (setSTDAIR_Service (Some st) True
     (ServiceContext_make crs)))"
  "p \<noteq> None \<Longrightarrow> q \<noteq> None \<Longrightarrow> context_complete (with_handlers fq ts ai
     (setSEVMGR_Service q False (setSTDAIR_Service p False (ServiceContext_make crs))))"
  by (simp_all add: context_complete_def setter_defs)

text \<open>What the constructors that returned have done, in terms of \<open>constructed\<close>.\<close>

lemma owning_constructor_Ret:
  assumes "mem_ok s"
    and "SIMCRS_Service_log A lp crs s = (Ret this, t) \<or>
         SIMCRS_Service_db A lp dp crs s = (Ret this, t)"
  obtains fq ts ai st where "constructed s crs this t
    (with_handlers fq ts ai (setSTDAIR_Service (Some st) True (ServiceContext_make crs)))"
proof -
  from assms(2) obtain st w u v where
    u: "construct_tail A (\<lambda>this. addStdAirService A this (Some st) True) crs (s\<lparr>world := w\<rparr>)
     = (Ret this, u)" and t: "t = u\<lparr>world := v\<rparr>"
    by (auto simp: log_tail db_tail initStdAirService_def initStdAirService_db_def
        bindM_eq_Ret_iff)
  from construct_tail_Ret [OF _ attaches_StdAir _ u] assms(1) that
  show thesis by (auto simp: setter_defs t)
qed

lemma shared_constructor_Ret:
  assumes "mem_ok s" and "SIMCRS_Service_shared A p q crs s = (Ret this, t)"
  obtains fq ts ai where "q \<noteq> None" "constructed s crs this t (with_handlers fq ts ai
    (setSEVMGR_Service q False (setSTDAIR_Service p False (ServiceContext_make crs))))"
proof -
  from assms(2) obtain u w v where
    u: "construct_tail A (\<lambda>this. seqM (addStdAirService A this p False)
      (addSEVMGRService A this q False)) crs (s\<lparr>world := w\<rparr>) = (Ret this, u)"
    and t: "t = u\<lparr>world := v\<rparr>"
    by (auto simp: shared_tail)
  from construct_tail_Ret [OF _ attaches_both _ u] assms(1) that show thesis
    by (auto simp: setter_defs t)
qed

lemma constructor_adds_one:
  assumes "mem_ok s"
  shows "SIMCRS_Service_log A lp crs s = (Ret this, t) \<Longrightarrow> \<exists>c. constructed s crs this t c"
    and "SIMCRS_Service_db A lp dp crs s = (Ret this, t) \<Longrightarrow> \<exists>c. constructed s crs this t c"
    and "SIMCRS_Service_shared A p q crs s = (Ret this, t) \<Longrightarrow>
      \<exists>c. constructed s crs this t c"
  using owning_constructor_Ret [OF assms] shared_constructor_Ret [OF assms] by metis+

lemma constructors_return:
  assumes "mem_ok s" and "makes_return A"
  shows "\<exists>this. fst (SIMCRS_Service_log A lp crs s) = Ret this"
    and "\<exists>this. fst (SIMCRS_Service_db A lp dp crs s) = Ret this"
    and "if q = None then fst (SIMCRS_Service_shared A p q crs s) = Halt AssertionFailure
     else \<exists>this. fst (SIMCRS_Service_shared A p q crs s) = Ret this"
proof -
  from assms(2) obtain st w where st: "stdair_make (stdairA A) lp (world s) = (Ret st, w)"
    unfolding makes_return_def by blast
  from assms(2) obtain st' w' where
    st': "stdair_make_db (stdairA A) lp dp (world s) = (Ret st', w')"
    unfolding makes_return_def by blast
  have ok: "mem_ok (s\<lparr>world := v\<rparr>)" for v using assms(1) by simp
  show "\<exists>this. fst (SIMCRS_Service_log A lp crs s) = Ret this"
    by (rule construct_tail_outcome
        [OF ok [of w] attaches_StdAir [of "Some st" True] assms(2), where crs = crs])
      (auto simp: log_tail initStdAirService_def bindM_cases on_world_def st setter_defs)
  show "\<exists>this. fst (SIMCRS_Service_db A lp dp crs s) = Ret this"
    by (rule construct_tail_outcome
        [OF ok [of w'] attaches_StdAir [of "Some st'" True] assms(2), where crs = crs])
      (auto simp: db_tail initStdAirService_db_def bindM_cases on_world_def st' setter_defs)
  show "if q = None then fst (SIMCRS_Service_shared A p q crs s) = Halt AssertionFailure
     else \<exists>this. fst (SIMCRS_Service_shared A p q crs s) = Ret this"
    by (rule construct_tail_outcome
        [OF ok [of "take_sptr A q (take_sptr A p (world s))"]
          attaches_both [of q False p False] assms(2), where crs = crs])
      (auto simp: shared_tail setter_defs)
qed

section \<open>Properties\<close>

text \<open>
  C15. The two constructors that create their own StdAir service (with and without database
  parameters), when they return, have added exactly one context at an address that no context
  had. It holds all the handlers, the given CRS code, and the flags "owns StdAir" and "owns
  SEvMgr" with no SEvMgr pointer; no other context has changed and the factories' memory is
  well formed again.
\<close>

theorem owning_constructors_complete:
  assumes "mem_ok s"
    and "SIMCRS_Service_log A lp crs s = (Ret this, t) \<or>
         SIMCRS_Service_db A lp dp crs s = (Ret this, t)"
  shows "\<exists>c. constructed s crs this t c \<and> context_complete c \<and>
    ownStdairService c = Some True \<and> ownSEVMGRService c \<and> sevmgrService c = None"
proof -
  obtain fq ts ai st where "constructed s crs this t
    (with_handlers fq ts ai (setSTDAIR_Service (Some st) True (ServiceContext_make crs)))"
    by (rule owning_constructor_Ret [OF assms])
  then show ?thesis
    by (intro exI [of _ "with_handlers fq ts ai
        (setSTDAIR_Service (Some st) True (ServiceContext_make crs))"])
      (simp add: context_complete_def setter_defs)
qed

theorem owning_constructors_complete_witness:
  "\<exists>c. constructed (fresh_state ([], 0)) ''1P'' sample_service (sample_state True) c \<and>
     context_complete c \<and> ownStdairService c = Some True \<and> ownSEVMGRService c \<and>
     sevmgrService c = None"
  using owning_constructors_complete [OF mem_ok_fresh disjI1 [OF sample_run(1)]] .

text \<open>
  C16. The constructor on a shared StdAir and SEvMgr service returns only if the SEvMgr
  pointer is not NULL. It then adds exactly one context, with the two given pointers, the
  three other handlers and both ownership flags off.
\<close>

theorem shared_constructor_complete:
  assumes "mem_ok s" and "SIMCRS_Service_shared A p q crs s = (Ret this, t)"
  shows "q \<noteq> None \<and> (\<exists>c. constructed s crs this t c \<and> stdairService c = p \<and>
    sevmgrService c = q \<and> ownStdairService c = Some False \<and> \<not> ownSEVMGRService c \<and>
    (p \<noteq> None \<longrightarrow> context_complete c))"
proof -
  obtain fq ts ai where "q \<noteq> None" "constructed s crs this t (with_handlers fq ts ai
    (setSEVMGR_Service q False (setSTDAIR_Service p False (ServiceContext_make crs))))"
    by (rule shared_constructor_Ret [OF assms])
  then show ?thesis
    by (intro conjI exI [of _ "with_handlers fq ts ai (setSEVMGR_Service q False
        (setSTDAIR_Service p False (ServiceContext_make crs)))"])
      (simp_all add: context_complete_def setter_defs)
qed

theorem shared_constructor_complete_witness:
  "\<exists>c. constructed (fresh_state ([], 1)) ''1P'' sample_service (sample_state False) c \<and>
     stdairService c = Some 0 \<and> sevmgrService c = Some 9 \<and> context_complete c"
  using shared_constructor_complete [OF mem_ok_fresh sample_run(3)] by auto

text \<open>
  C33. Totality: when the constructors of the other services return, so do the two owning
  constructors, and the shared one as soon as the SEvMgr pointer is not NULL; with a NULL
  SEvMgr pointer the shared constructor stops on its assertion.
\<close>

theorem constructors_outcome:
  assumes "mem_ok s" and "makes_return A"
  shows "(\<exists>this. fst (SIMCRS_Service_log A lp crs s) = Ret this) \<and>
    (\<exists>this. fst (SIMCRS_Service_db A lp dp crs s) = Ret this) \<and>
    (if q = None then fst (SIMCRS_Service_shared A p q crs s) = Halt AssertionFailure
     else \<exists>this. fst (SIMCRS_Service_shared A p q crs s) = Ret this)"
  by (intro conjI constructors_return [OF assms])

theorem constructors_outcome_witness:
  "\<exists>this. fst (SIMCRS_Service_log (echo_apis (\<lambda>_. True) []) sample_log ''1P''
     (fresh_state ([], 0))) = Ret this"
  using constructors_outcome [OF mem_ok_fresh makes_return_echo] by blast

text \<open>
  C31. A constructor that stops half way leaks: once the StdAir service has been created, then
  whatever way the rest of the constructor ends, its context is in the pool of the factory
  with a shared pointer on that StdAir service. An exception of the fare quoter's or of the
  inventory's constructor runs no destructor that would release it.
\<close>

theorem failed_constructor_leaks:
  assumes "mem_ok s" and "stdair_make (stdairA A) lp (world s) = (Ret st, w)"
    and "SIMCRS_Service_log A lp crs s = (r, t)"
  shows "mem_ok t \<and> (\<exists>a c. contexts s a = None \<and> contexts t = (contexts s)(a \<mapsto> c) \<and>
           stdairService c = Some st) \<and> held_refs st s < held_refs st t"
proof -
  have "with_sptr A (Some st) (construct_tail A (\<lambda>this. addStdAirService A this (Some st) True)
      crs) (s\<lparr>world := w\<rparr>) = (r, t)"
    using assms(2,3) by (simp add: log_tail initStdAirService_def bindM_cases on_world_def)
  then obtain u v where t: "t = u\<lparr>world := v\<rparr>" and
    run: "construct_tail A (\<lambda>this. addStdAirService A this (Some st) True) crs (s\<lparr>world := w\<rparr>)
      = (r, u)" by (rule with_sptr_any)
  obtain a c where c: "mem_ok t" "contexts s a = None" "contexts t = (contexts s)(a \<mapsto> c)"
    "stdairService c = Some st"
    by (rule construct_tail_any [OF _ attaches_StdAir run]) (use assms(1) in
        \<open>auto simp: setter_defs t\<close>)
  have "0 < context_refs st c" using c(4) by (simp add: context_refs_alt)
  with c held_refs_new [OF assms(1) c(2,3), of st] show ?thesis by auto
qed

theorem failed_constructor_leaks_witness:
  "held_refs 0 (fresh_state ([], 0) :: echo crs_state) < held_refs 0 (sample_state True) \<and>
   mem_ok (sample_state True)"
proof -
  have "stdair_make (stdairA (echo_apis (\<lambda>_. True) [])) sample_log
      (world (fresh_state ([], 0))) = (Ret 0, [(''stdair'', 0)], 1)"
    by (simp add: echo_apis_def fresh_state_def)
  from failed_constructor_leaks [OF mem_ok_fresh this sample_run(1)] show ?thesis by blast
qed

section \<open>Destruction\<close>

text \<open>
  The destructor of a service whose context is alive returns and only resets that
  context: each shared pointer it held is given back, in the order of \<open>reset()\<close>, the context
  object itself stays in the factory's pool (it is not deleted), and nothing else changes.
\<close>

definition destroyed ::
  "'w apis \<Rightarrow> addr \<Rightarrow> service_context \<Rightarrow> ('w, 'x) crs_state_scheme \<Rightarrow> ('w, 'x) crs_state_scheme"
where
  "destroyed A a c s = s\<lparr>contexts := (contexts s)(a \<mapsto> emptied c),
     world := drop_slots A (reset_order c) (world s)\<rparr>"

lemma destroyed_fields [simp]:
  "contexts (destroyed A a c s) = (contexts s)(a \<mapsto> emptied c)"
  "world (destroyed A a c s) = drop_slots A (reset_order c) (world s)"
  "context_pool (destroyed A a c s) = context_pool s"
  by (simp_all add: destroyed_def)

lemma destroy_run:
  "simcrsServiceContext this = Some a \<Longrightarrow> contexts s a = Some c \<Longrightarrow>
   SIMCRS_Service_destroy A this s = (Ret (), destroyed A a c s)"
  by (simp add: SIMCRS_Service_destroy_def finalise_def bindM_cases reset_eq destroyed_def
      drop_slots_def)

lemma mem_ok_destroyed: "contexts s a = Some c \<Longrightarrow> mem_ok (destroyed A a c s) \<longleftrightarrow> mem_ok s"
  using mem_ok_update_context [of s a c] by (simp add: destroyed_def)

lemma destroy_releases:
  assumes "mem_ok s" and "contexts s a = Some c"
  shows "held_refs x (destroyed A a c s) + context_refs x c = held_refs x s"
  using held_refs_update [OF assms, of "destroyed A a c s" "emptied c" x] assms
  by (simp add: mem_ok_destroyed)

text \<open>
  Whatever happens between construction and destruction, as long as it does not write the
  memory of SimCRS: the destructor returns and gives back what the constructor took.
\<close>

lemma destroy_undoes:
  fixes s u v :: "('w, 'x) crs_state_scheme"
  assumes ok: "mem_ok s" and con: "constructed s crs this u c"
    and same: "mem.truncate v = mem.truncate u"
  shows "\<exists>t. SIMCRS_Service_destroy A this v = (Ret (), t) \<and> mem_ok t \<and>
    (\<forall>x. held_refs x t = held_refs x s)"
proof -
  obtain a where a: "mem_ok u" "simcrsServiceContext this = Some a" "contexts s a = None"
    "contexts u = (contexts s)(a \<mapsto> c)"
    using con unfolding constructed_def by blast
  have v: "mem_ok v" "contexts v = (contexts s)(a \<mapsto> c)"
    using same_memory [OF same] a by simp_all
  then have c: "contexts v a = Some c" by simp
  have "held_refs x (destroyed A a c v) = held_refs x s" for x
    using destroy_releases [OF v(1) c, of x A] held_refs_new [OF ok a(3) v(2), of x] by simp
  with destroy_run [OF a(2) c] mem_ok_destroyed [OF c] v(1) show ?thesis by blast
qed

text \<open>
  C17. Construct and destroy: no shared pointer survives. After the destructor of a service
  that any of the three constructors built, every external service is referred to by exactly
  as many contexts as before the construction.
\<close>

theorem construct_destroy_balanced:
  assumes "mem_ok s"
    and "SIMCRS_Service_log A lp crs s = (Ret this, t) \<or>
         SIMCRS_Service_db A lp dp crs s = (Ret this, t) \<or>
         SIMCRS_Service_shared A p q crs s = (Ret this, t)"
  shows "\<exists>u. SIMCRS_Service_destroy A this t = (Ret (), u) \<and> mem_ok u \<and>
    (\<forall>x. held_refs x u = held_refs x s)"
proof -
  obtain c where "constructed s crs this t c"
    using assms(2) constructor_adds_one [OF assms(1)] by blast
  from destroy_undoes [OF assms(1) this refl] show ?thesis .
qed

theorem construct_destroy_balanced_witness:
  "\<exists>u. SIMCRS_Service_destroy (echo_apis (\<lambda>_. True) []) sample_service (sample_state True)
       = (Ret (), u) \<and>
     held_refs 0 u = held_refs 0 (fresh_state ([], 0) :: echo crs_state)"
  using construct_destroy_balanced [OF mem_ok_fresh
      disjI1 [OF sample_run(1) [of "\<lambda>_. True" "[]"]]] by auto

text \<open>
  C32. The order of clean-up matters: after \<open>FacSupervisor::cleanFactory()\<close> the context of a
  service that is still alive is gone, and the destructor of that service follows a dangling
  pointer. In the other order both return and nothing is left: the destructor of the service
  gives its pointers up in the order of \<open>reset()\<close>, the clean-up those of the other contexts.
\<close>

theorem clean_before_destroy_dangles:
  assumes "mem_ok s" and "simcrsServiceContext this = Some a" and "contexts s a = Some c"
  shows "fst (seqM (cleanFactory A) (SIMCRS_Service_destroy A this) s)
      = Halt (Undefined Dangling) \<and>
    seqM (SIMCRS_Service_destroy A this) (cleanFactory A) s
      = (Ret (), cleaned A (destroyed A a c s))"
proof
  show "fst (seqM (cleanFactory A) (SIMCRS_Service_destroy A this) s) = Halt (Undefined Dangling)"
    using assms(2) by (simp add: seqM_cases cleanFactory_run [OF assms(1)]
        SIMCRS_Service_destroy_def finalise_def bindM_cases cleaned_def)
  have "mem_ok (destroyed A a c s)" using assms(1) mem_ok_destroyed [OF assms(3)] by blast
  from cleanFactory_run [OF this]
  show "seqM (SIMCRS_Service_destroy A this) (cleanFactory A) s
      = (Ret (), cleaned A (destroyed A a c s))"
    by (simp add: seqM_cases destroy_run [OF assms(2,3)])
qed

theorem clean_before_destroy_dangles_witness:
  "fst (seqM (cleanFactory (echo_apis (\<lambda>_. True) []))
      (SIMCRS_Service_destroy (echo_apis (\<lambda>_. True) []) sample_service) (sample_state True))
     = Halt (Undefined Dangling)"
  using clean_before_destroy_dangles [OF mem_ok_sample sample_pointer sample_alive] by blast

end
