(* ===== verification/CRS_Methods.thy ===== *)
theory CRS_Methods
  imports CRS_Loading CRS_Lifetime
begin

text \<open>
  All public methods of \<open>SIMCRS_Service\<close> together: a call is a value of \<open>public_call\<close>, and
  \<open>invoke\<close> runs it. What the methods have in common (the guard, no write to the memory of
  SimCRS, no fault in a quiet environment) is shown here, once for all of them.
\<close>

section \<open>Calls\<close>

text \<open>
  A method with a list passed by reference is called on a variable of the caller; the reply
  is that variable's new value.
\<close>

datatype public_call =
    Parse_And_Load string string string string string string
  | Build_Sample_Bom
  | Clone_Persistent_Bom
  | Complementary_Links BomRoot
  | Sample_Solutions "travel_solution list"
  | Sample_Request bool
  | Segment_Paths booking_request
  | Fare_Quote booking_request "travel_solution list"
  | Availability "travel_solution list"
  | Sell travel_solution PartySize_T
  | Sell_Key string string PartySize_T
  | Cancel cancellation_struct
  | Take_Snapshots snapshot_struct
  | Optimise rm_event_struct
  | Init_Snapshots Date_T Date_T
  | Json string
  | Csv
  | Csv_List "travel_solution list"
  | List_Flights string int
  | Csv_Flight string int Date_T

text \<open>Calls that leave out the arguments with a default value.\<close>

definition Sample_Request_default :: public_call where
  "Sample_Request_default = Sample_Request False"

definition List_Flights_default :: public_call where
  "List_Flights_default = List_Flights ''all'' 0"

definition List_Flights_airline :: "string \<Rightarrow> public_call" where
  "List_Flights_airline iAirlineCode = List_Flights iAirlineCode 0"

datatype reply =
    No_Reply
  | Bool_Reply bool
  | Text_Reply string
  | Request_Reply booking_request
  | Solutions_Reply "travel_solution list"

definition as_reply :: "('a \<Rightarrow> reply) \<Rightarrow> ('s, 'a) prog \<Rightarrow> ('s, reply) prog" where
  "as_reply f m = bindM m (\<lambda>x. ret (f x))"

fun invoke ::
  "'w apis \<Rightarrow> public_call \<Rightarrow> simcrs_service \<Rightarrow> (('w, 'x) crs_state_scheme, reply) prog" where
  "invoke A (Parse_And_Load f g h i j k) this =
     as_reply (\<lambda>_. No_Reply) (SIMCRS_parseAndLoad A this f g h i j k)"
| "invoke A Build_Sample_Bom this = as_reply (\<lambda>_. No_Reply) (SIMCRS_buildSampleBom A this)"
| "invoke A Clone_Persistent_Bom this =
     as_reply (\<lambda>_. No_Reply) (SIMCRS_clonePersistentBom A this)"
| "invoke A (Complementary_Links r) this =
     as_reply (\<lambda>_. No_Reply) (SIMCRS_buildComplementaryLinks this r)"
| "invoke A (Sample_Solutions ts) this =
     as_reply Solutions_Reply (with_local ts (SIMCRS_buildSampleTravelSolutions A this))"
| "invoke A (Sample_Request b) this =
     as_reply Request_Reply (SIMCRS_buildSampleBookingRequest A this b)"
| "invoke A (Segment_Paths q) this =
     as_reply Solutions_Reply (SIMCRS_calculateSegmentPathList A this q)"
| "invoke A (Fare_Quote q ts) this =
     as_reply Solutions_Reply (with_local ts (SIMCRS_fareQuote A this q))"
| "invoke A (Availability ts) this =
     as_reply Solutions_Reply (with_local ts (SIMCRS_calculateAvailability A this))"
| "invoke A (Sell t n) this = as_reply Bool_Reply (SIMCRS_sell A this t n)"
| "invoke A (Sell_Key k c n) this = as_reply Bool_Reply (SIMCRS_sell_key A this k c n)"
| "invoke A (Cancel c) this = as_reply Bool_Reply (SIMCRS_playCancellation A this c)"
| "invoke A (Take_Snapshots q) this = as_reply (\<lambda>_. No_Reply) (SIMCRS_takeSnapshots A this q)"
| "invoke A (Optimise q) this = as_reply (\<lambda>_. No_Reply) (SIMCRS_optimise A this q)"
| "invoke A (Init_Snapshots b e) this =
     as_reply (\<lambda>_. No_Reply) (SIMCRS_initSnapshotAndRMEvents A this b e)"
| "invoke A (Json j) this = as_reply Text_Reply (SIMCRS_jsonHandler A this j)"
| "invoke A Csv this = as_reply Text_Reply (SIMCRS_csvDisplay A this)"
| "invoke A (Csv_List ts) this = as_reply Text_Reply (SIMCRS_csvDisplay_list A this ts)"
| "invoke A (List_Flights a n) this = as_reply Text_Reply (SIMCRS_list A this a n)"
| "invoke A (Csv_Flight a n d) this = as_reply Text_Reply (SIMCRS_csvDisplay_flight A this a n d)"

section \<open>The contract\<close>

text \<open>
  One public method has no guard: \<open>buildComplementaryLinks\<close>, whose body is empty.
\<close>

definition guarded :: "public_call \<Rightarrow> bool" where
  "guarded k = (case k of Complementary_Links r \<Rightarrow> False | _ \<Rightarrow> True)"

lemmas method_defs = plain_method_defs ref_method_defs SIMCRS_parseAndLoad_def
  SIMCRS_buildSampleBom_def SIMCRS_clonePersistentBom_def

lemma keeps_as_reply [keeps_intros]: "keeps g m \<Longrightarrow> keeps g (as_reply f m)"
  unfolding as_reply_def by (intro keeps_intros)

lemma as_reply_checked:
  "as_reply f (bindM (checked_context this) g)
   = bindM (checked_context this) (\<lambda>c. as_reply f (g c))"
  by (simp add: as_reply_def bindM_assoc del: run_simps)

lemma invoke_guarded:
  "guarded k \<Longrightarrow> invoke A k this = bindM (checked_context this) (\<lambda>_. invoke A k this)"
  by (cases k) (simp_all only: guarded_def public_call.case invoke.simps method_defs with_local_checked as_reply_checked
      checked_twice)

lemma keeps_clone:
  "(\<And>s w. g (s\<lparr>world := w\<rparr>) = g s) \<Longrightarrow> keeps g (SIMCRS_clonePersistentBom A this)"
  unfolding SIMCRS_clonePersistentBom_def SIMCRS_buildComplementaryLinks_def
  by (intro keeps_intros) simp_all

lemma invoke_frame: "keeps mem.truncate (invoke A k this)"
  by (cases k) (auto simp: method_defs SIMCRS_buildComplementaryLinks_def
      intro!: keeps_intros keeps_clone)

interpretation methods: context_client "invoke A k" "guarded k"
  for A k
  by unfold_locales (rule invoke_frame, rule invoke_guarded)

section \<open>Absence of faults\<close>

lemma settles_True_loop:
  "no_halt (airinv_calculateAvailability (airinvA A) ai) \<Longrightarrow>
   \<not> is_halt (fst (availability_loop A ai ts w))"
proof (induction ts arbitrary: w)
  case Nil
  then show ?case by simp
next
  case (Cons t ts)
  obtain r t1 w1 where run: "airinv_calculateAvailability (airinvA A) ai (t, w) = (r, t1, w1)"
    by (cases "airinv_calculateAvailability (airinvA A) ai (t, w)") auto
  with Cons.prems have "\<not> is_halt r"
    unfolding no_halt_iff by (metis fst_conv)
  with run Cons.IH [OF Cons.prems, of w1] show ?case
    by (cases r) (auto split: prod.split)
qed

lemma no_halt_availability:
  assumes "quiet A"
  shows "no_halt (DistributionManager_calculateAvailability A ai)"
proof -
  have "no_halt (airinv_calculateAvailability (airinvA A) ai)"
    using assms by (simp add: quiet_def quiet_airinv_def)
  then show ?thesis
    by (simp add: no_halt_iff DistributionManager_calculateAvailability_def
        settles_True_loop)
qed

lemma quiet_submit: "quiet A \<Longrightarrow> no_halt (submit A ai n r)"
  by (cases r) (simp_all add: quiet_def quiet_airinv_def)

lemma no_halt_sell:
  assumes "quiet A" "sellable t"
  shows "no_halt (DistributionManager_sell A ai t n)"
  unfolding sell_runs_script sale_script_sellable [OF assms(2)] sales.loop_latest no_halt_def
  by (intro settles_intros quiet_submit [OF assms(1), unfolded no_halt_def])

lemma no_halt_cancel:
  assumes "quiet A"
  shows "no_halt (DistributionManager_playCancellation A ai c)"
proof -
  have "no_halt (airinv_cancel (airinvA A) ai x n)" for x n
    using assms by (simp add: quiet_def quiet_airinv_def)
  then show ?thesis
    unfolding DistributionManager_playCancellation_def cancellation.loop_latest no_halt_def
    by (intro settles_intros)
qed

lemma settles_as_reply [settles_intros]: "settles P m \<Longrightarrow> settles P (as_reply f m)"
  unfolding as_reply_def by (intro settles_intros)

lemma settles_if [settles_intros]:
  "settles P m \<Longrightarrow> settles P n \<Longrightarrow> settles P (if b then m else n)"
  by simp

text \<open>A call that does not sell, or sells a well-formed solution.\<close>

definition well_formed_call :: "public_call \<Rightarrow> bool" where
  "well_formed_call k = (case k of Sell t _ \<Rightarrow> sellable t | _ \<Rightarrow> True)"

lemma settles_clone:
  assumes "quiet A"
  shows "settles (serves this) (SIMCRS_clonePersistentBom A this)"
  unfolding SIMCRS_clonePersistentBom_def SIMCRS_buildComplementaryLinks_def
  by (intro settles_intros; simp add: assms [unfolded quiet_defs])

lemma settles_loads:
  assumes "quiet A"
  shows "settles (serves this) (SIMCRS_buildSampleBom A this)"
    and "settles (serves this) (SIMCRS_parseAndLoad A this f g h i j k)"
  unfolding SIMCRS_buildSampleBom_def SIMCRS_parseAndLoad_def SIMCRS_buildComplementaryLinks_def
  by (intro settles_intros settles_clone assms; simp add: assms [unfolded quiet_defs])+

lemma settles_plain:
  assumes "quiet A"
  shows "settles (serves this) (SIMCRS_buildSampleBookingRequest A this b)"
    and "settles (serves this) (SIMCRS_sell_key A this k d n)"
    and "settles (serves this) (SIMCRS_jsonHandler A this j)"
    and "settles (serves this) (SIMCRS_initSnapshotAndRMEvents A this b' e)"
    and "settles (serves this) (SIMCRS_takeSnapshots A this sn)"
    and "settles (serves this) (SIMCRS_optimise A this ev)"
    and "settles (serves this) (SIMCRS_csvDisplay A this)"
    and "settles (serves this) (SIMCRS_csvDisplay_list A this ts)"
    and "settles (serves this) (SIMCRS_list A this al fn)"
    and "settles (serves this) (SIMCRS_csvDisplay_flight A this al fn dt)"
  unfolding plain_method_defs
  by (intro settles_intros; simp add: assms [unfolded quiet_defs])+

lemma settles_timed:
  assumes "quiet A"
  shows "settles (serves this) (SIMCRS_calculateSegmentPathList A this q)"
    and "settles (serves this) (SIMCRS_playCancellation A this cs)"
    and "sellable t \<Longrightarrow> settles (serves this) (SIMCRS_sell A this t n)"
    and "settles (\<lambda>p. serves this (snd p)) (SIMCRS_buildSampleTravelSolutions A this)"
    and "settles (\<lambda>p. serves this (snd p)) (SIMCRS_fareQuote A this q)"
    and "settles (\<lambda>p. serves this (snd p)) (SIMCRS_calculateAvailability A this)"
  unfolding plain_method_defs ref_method_defs
  by (intro settles_intros assms no_halt_availability no_halt_sell no_halt_cancel;
      simp add: assms [unfolded quiet_defs])+

lemma invoke_settles:
  assumes "quiet A" "well_formed_call k"
  shows "settles (serves this) (invoke A k this)"
  using assms(2) settles_loads [OF assms(1)] settles_plain [OF assms(1)]
    settles_timed [OF assms(1)] settles_clone [OF assms(1)]
  by (cases k) (auto simp: well_formed_call_def SIMCRS_buildComplementaryLinks_def settles_ret intro!: settles_as_reply settles_with_local)

interpretation safe_methods: safe_client "invoke A k" "quiet A \<and> well_formed_call k"
  for A k
  by unfold_locales (simp add: invoke_settles)

text \<open>A service that the constructor with log parameters has built can serve.\<close>

lemma log_constructor_serves:
  assumes ok: "mem_ok s" and mk: "makes_return A"
  obtains this t where "SIMCRS_Service_log A lp crs s = (Ret this, t)" "serves this t"
proof -
  obtain this t where run: "SIMCRS_Service_log A lp crs s = (Ret this, t)"
    using constructors_return(1) [OF assms] by (metis prod.collapse)
  obtain fq ts ai st where "constructed s crs this t
      (with_handlers fq ts ai (setSTDAIR_Service (Some st) True (ServiceContext_make crs)))"
    by (rule owning_constructor_Ret [OF ok disjI1 [OF run]])
  then have "serves this t"
    using new_contexts_complete(1) unfolding constructed_def serves_def by auto
  with run that show thesis by blast
qed

section \<open>Properties\<close>

text \<open>
  C21. A service object without a context answers every public method but
  \<open>buildComplementaryLinks\<close> with the exception \<open>NonInitialisedServiceException\<close>. That one has
  no guard and returns, the service being initialised or not. In no case is its own memory or
  any other component touched.
\<close>

theorem null_context_throws:
  assumes "simcrsServiceContext this = None"
  shows "invoke A k this s = (case k of Complementary_Links r \<Rightarrow> (Ret No_Reply, s)
    | _ \<Rightarrow> (Throw (NonInitialisedServiceException NOT_INITIALISED), s))"
proof (cases "guarded k")
  case True
  with methods.op_null [OF True assms] show ?thesis
    by (cases k) (simp_all add: guarded_def del: invoke.simps)
next
  case False
  then show ?thesis
    by (cases k) (simp_all add: guarded_def as_reply_def SIMCRS_buildComplementaryLinks_def)
qed

theorem null_context_throws_witness:
  "invoke (echo_apis (\<lambda>_. True) []) Csv \<lparr>simcrsServiceContext = None\<rparr> (sample_state True)
     = (Throw (NonInitialisedServiceException NOT_INITIALISED), sample_state True)"
  by (subst null_context_throws) simp_all

text \<open>
  The guard is no protection once the factories have been cleaned: the pointer of the
  service is not reset, so that every method with a guard follows a dangling pointer.
\<close>

lemma methods_after_clean_dangle:
  assumes "mem_ok s" and "simcrsServiceContext this = Some a" and "guarded k"
  shows "fst (seqM (cleanFactory A) (invoke A k this) s) = Halt (Undefined Dangling)"
proof -
  have "contexts (cleaned A s) a = None" by (simp add: cleaned_def)
  from methods.op_dead [OF assms(3,2) this]
  show ?thesis by (simp add: seqM_cases cleanFactory_run [OF assms(1)])
qed

text \<open>
  No public method writes the memory of SimCRS: the contexts, the factories with their
  pools and the singletons are the same after the call, however it ends.
\<close>

lemma methods_keep_memory: "mem.truncate (snd (invoke A k this s)) = mem.truncate s"
  by (rule methods.op_memory)

text \<open>
  With a live and complete context no public method stops on an assertion or an
  undefined step, as long as the other components do not stop and a travel solution to sell
  is well formed; the context is then live and complete for the next call.
\<close>

lemma methods_never_stop:
  assumes "quiet A" and "well_formed_call k" and "serves this s"
  shows "\<not> is_halt (fst (invoke A k this s)) \<and> serves this (snd (invoke A k this s))"
proof
  show "\<not> is_halt (fst (invoke A k this s))"
    using safe_methods.op_no_fault assms by blast
  show "serves this (snd (invoke A k this s))"
    using safe_methods.op_serves assms by blast
qed

end
