(* ===== verification/CRS_Lifecycle.thy ===== *)
theory CRS_Lifecycle
  imports CRS_Methods
begin

text \<open>
  The process as a state machine. Its state is the list of the service objects that are alive,
  with the memory and the external components; a step is a constructor, a public method, a
  destructor or a clean-up of the factories, in any order that uses live objects only and
  cleans up when no service is alive. The invariant says that every live service can serve in
  every reachable state.
\<close>

section \<open>Steps\<close>

datatype event =
    Construct | Construct_Fails | Call public_call "reply outcome" | Destroy | Clean

type_synonym 'w system = "simcrs_service list \<times> 'w crs_state"

text \<open>The three public constructors; the shared one is given a StdAir service.\<close>

inductive constructor :: "'w apis \<Rightarrow> ('w crs_state, simcrs_service) prog \<Rightarrow> bool" for A where
  ctor_log: "constructor A (SIMCRS_Service_log A lp crs)"
| ctor_db: "constructor A (SIMCRS_Service_db A lp dp crs)"
| ctor_shared: "p \<noteq> None \<Longrightarrow> constructor A (SIMCRS_Service_shared A p q crs)"

inductive crs_step :: "'w apis \<Rightarrow> event \<Rightarrow> 'w system \<Rightarrow> 'w system \<Rightarrow> bool" for A where
  construct: "constructor A m \<Longrightarrow> m s = (Ret this, t) \<Longrightarrow>
    crs_step A Construct (vs, s) (this # vs, t)"
| construct_fails: "constructor A m \<Longrightarrow> m s = (Throw e, t) \<Longrightarrow>
    crs_step A Construct_Fails (vs, s) (vs, t)"
| call: "this \<in> set vs \<Longrightarrow> invoke A k this s = (r, t) \<Longrightarrow> \<not> is_halt r \<Longrightarrow>
    crs_step A (Call k r) (vs, s) (vs, t)"
| destroy: "this \<in> set vs \<Longrightarrow> SIMCRS_Service_destroy A this s = (Ret (), t) \<Longrightarrow>
    crs_step A Destroy (vs, s) (remove1 this vs, t)"
| clean: "cleanFactory A s = (Ret (), t) \<Longrightarrow> crs_step A Clean ([], s) ([], t)"

inductive_cases constructE: "crs_step A Construct u v"
inductive_cases failsE: "crs_step A Construct_Fails u v"
inductive_cases callE: "crs_step A (Call k r) u v"
inductive_cases destroyE: "crs_step A Destroy u v"
inductive_cases cleanE: "crs_step A Clean u v"

inductive_simps constructor_simps: "constructor A m"

text \<open>States reachable from the start of a process by steps whose events satisfy \<open>P\<close>.\<close>

inductive reachable :: "'w apis \<Rightarrow> (event \<Rightarrow> bool) \<Rightarrow> 'w system \<Rightarrow> bool" for A P where
  start: "reachable A P ([], fresh_state w)"
| step: "reachable A P u \<Longrightarrow> P ev \<Longrightarrow> crs_step A ev u v \<Longrightarrow> reachable A P v"

section \<open>What each step does to the contexts\<close>

definition may_add_context :: "'x mem_scheme \<Rightarrow> 'x mem_scheme \<Rightarrow> bool" where
  "may_add_context s t \<longleftrightarrow> contexts t = contexts s \<and> context_pool t = context_pool s \<or>
     (\<exists>a c. contexts s a = None \<and> contexts t = (contexts s)(a \<mapsto> c) \<and>
            context_pool t = context_pool s @ [Some a])"

lemma may_add_world [simp]:
  "may_add_context (s\<lparr>world := w\<rparr>) t = may_add_context s t"
  "may_add_context s (t\<lparr>world := w\<rparr>) = may_add_context s t"
  by (simp_all add: may_add_context_def)

lemma tail_adds:
  assumes "mem_ok s" "attaches f g attach" "construct_tail A attach crs s = (r, t)"
  shows "mem_ok t \<and> may_add_context s t"
  using construct_tail_run [OF assms] unfolding may_add_context_def by metis

lemma owning_constructor_any:
  assumes ok: "mem_ok s"
    and run: "SIMCRS_Service_log A lp crs s = (r, t) \<or> SIMCRS_Service_db A lp dp crs s = (r, t)"
  shows "mem_ok t \<and> may_add_context s t"
proof -
  have "(\<exists>w. t = s\<lparr>world := w\<rparr>) \<or> (\<exists>w st. with_sptr A (Some st) (construct_tail A
      (\<lambda>this. addStdAirService A this (Some st) True) crs) (s\<lparr>world := w\<rparr>) = (r, t))"
    using run by (auto simp: log_tail db_tail initStdAirService_def initStdAirService_db_def
        bindM_cases on_world_def split: prod.splits outcome.splits)
  then show ?thesis
  proof
    assume "\<exists>w. t = s\<lparr>world := w\<rparr>"
    with ok show ?thesis by (auto simp: may_add_context_def)
  next
    assume "\<exists>w st. with_sptr A (Some st) (construct_tail A
      (\<lambda>this. addStdAirService A this (Some st) True) crs) (s\<lparr>world := w\<rparr>) = (r, t)"
    then obtain w st u v where "t = u\<lparr>world := v\<rparr>" and tail: "construct_tail A
      (\<lambda>this. addStdAirService A this (Some st) True) crs (s\<lparr>world := w\<rparr>) = (r, u)"
      by (metis with_sptr_any)
    with tail_adds [OF _ attaches_StdAir tail] ok show ?thesis by simp
  qed
qed

lemma constructor_any:
  assumes m: "constructor A m" and ok: "mem_ok s" and run: "m s = (r, t)"
  shows "mem_ok t \<and> may_add_context s t"
  using m
proof cases
  case (ctor_shared p q crs)
  with run have "with_copy A p (with_copy A q (construct_tail A (\<lambda>this.
      seqM (addStdAirService A this p False) (addSEVMGRService A this q False)) crs)) s = (r, t)"
    by (simp add: shared_tail)
  then obtain u w v where tail: "construct_tail A (\<lambda>this. seqM (addStdAirService A this p False)
      (addSEVMGRService A this q False)) crs (s\<lparr>world := w\<rparr>) = (r, u)" and t: "t = u\<lparr>world := v\<rparr>"
    by (elim with_copy_any) auto
  from tail_adds [OF _ attaches_both tail] ok show ?thesis by (simp add: t)
qed (use run owning_constructor_any [OF ok] in blast)+

lemma may_addE:
  assumes "may_add_context s t"
  obtains "contexts t = contexts s" "context_pool t = context_pool s"
    | a c where "contexts s a = None" "contexts t = (contexts s)(a \<mapsto> c)"
        "context_pool t = context_pool s @ [Some a]"
  using assms unfolding may_add_context_def by blast

lemma may_add_dom: "may_add_context s t \<Longrightarrow> dom (contexts s) \<subseteq> dom (contexts t)"
  by (erule may_addE) auto

text \<open>A constructor that returns: the new context is complete and nobody else's.\<close>

lemma constructor_Ret:
  assumes m: "constructor A m" and ok: "mem_ok s" and run: "m s = (Ret this, t)"
  obtains a c where "mem_ok t" "simcrsServiceContext this = Some a" "contexts s a = None"
    "contexts t = (contexts s)(a \<mapsto> c)" "context_complete c"
    "context_pool t = context_pool s @ [Some a]"
proof -
  have "\<exists>crs c. constructed s crs this t c \<and> context_complete c"
    using m
  proof cases
    case (ctor_log lp crs)
    then have r: "SIMCRS_Service_log A lp crs s = (Ret this, t)" using run by simp
    obtain fq ts ai st where "constructed s crs this t (with_handlers fq ts ai
        (setSTDAIR_Service (Some st) True (ServiceContext_make crs)))"
      by (rule owning_constructor_Ret [OF ok disjI1 [OF r]])
    then show ?thesis using new_contexts_complete(1) by blast
  next
    case (ctor_db lp dp crs)
    then have r: "SIMCRS_Service_db A lp dp crs s = (Ret this, t)" using run by simp
    obtain fq ts ai st where "constructed s crs this t (with_handlers fq ts ai
        (setSTDAIR_Service (Some st) True (ServiceContext_make crs)))"
      by (rule owning_constructor_Ret [OF ok disjI2 [OF r]])
    then show ?thesis using new_contexts_complete(1) by blast
  next
    case (ctor_shared p q crs)
    then have r: "SIMCRS_Service_shared A p q crs s = (Ret this, t)" using run by simp
    obtain fq ts ai where "q \<noteq> None" "constructed s crs this t (with_handlers fq ts ai
        (setSEVMGR_Service q False (setSTDAIR_Service p False (ServiceContext_make crs))))"
      by (rule shared_constructor_Ret [OF ok r])
    with ctor_shared show ?thesis using new_contexts_complete(2) by blast
  qed
  then show thesis using that unfolding constructed_def by blast
qed

section \<open>Invariants\<close>

text \<open>
  \<open>all_serve\<close>: the memory is well formed, no service is in the list twice, and each has a live
  and complete context. \<open>only_live_refs\<close>: no context of a destroyed service refers to an
  external service any more.
\<close>

fun all_serve :: "'w system \<Rightarrow> bool" where
  "all_serve (vs, s) \<longleftrightarrow> mem_ok s \<and> distinct vs \<and> (\<forall>this \<in> set vs. serves this s)"

fun only_live_refs :: "'w system \<Rightarrow> bool" where
  "only_live_refs (vs, s) \<longleftrightarrow> (\<forall>a c. contexts s a = Some c \<longrightarrow>
     (\<forall>this \<in> set vs. simcrsServiceContext this \<noteq> Some a) \<longrightarrow> (\<forall>x. context_refs x c = 0))"

lemma serves_new:
  assumes "serves this s" "contexts s a = None" "contexts t = (contexts s)(a \<mapsto> c)"
  shows "serves this t"
  using assms unfolding serves_def by auto

lemma serves_same: "contexts t = contexts s \<Longrightarrow> serves this t = serves this s"
  by (simp add: serves_def)

lemma service_eqI:
  fixes this that :: simcrs_service
  shows "simcrsServiceContext this = simcrsServiceContext that \<Longrightarrow> this = that"
  by (cases this, cases that) simp

lemma destroy_any:
  fixes s :: "('w, 'x) crs_state_scheme"
  assumes "mem_ok s" "serves this s" "SIMCRS_Service_destroy A this s = (Ret (), t)"
  obtains a c where "simcrsServiceContext this = Some a" "contexts s a = Some c"
    "contexts t = (contexts s)(a \<mapsto> emptied c)" "mem_ok t" "t = destroyed A a c s"
proof -
  obtain a c where ac: "simcrsServiceContext this = Some a" "contexts s a = Some c"
    using assms(2) unfolding serves_def by blast
  have t: "t = destroyed A a c s" using destroy_run [OF ac, of A] assms(3) by simp
  have "mem_ok t" unfolding t using assms(1) mem_ok_destroyed [OF ac(2)] by blast
  with ac t that show thesis by simp
qed

lemma step_all_serve:
  assumes "crs_step A ev u v" "all_serve u"
  shows "all_serve v"
  using assms
proof cases
  case (construct m s this t vs)
  then have ok: "mem_ok s" and vs: "distinct vs" "\<forall>that \<in> set vs. serves that s"
    using assms(2) by auto
  obtain a c where new: "mem_ok t" "simcrsServiceContext this = Some a" "contexts s a = None"
    "contexts t = (contexts s)(a \<mapsto> c)" "context_complete c"
    by (rule constructor_Ret [OF construct(4) ok construct(5)])
  have "this \<notin> set vs" using vs(2) new(2,3) unfolding serves_def by auto
  moreover have "serves this t" using new unfolding serves_def by auto
  moreover have "\<forall>that \<in> set vs. serves that t" using vs(2) serves_new [OF _ new(3,4)] by blast
  ultimately show ?thesis using construct(3) new(1) vs(1) by simp
next
  case (construct_fails m s e t vs)
  then have ok: "mem_ok s" and vs: "distinct vs" "\<forall>that \<in> set vs. serves that s"
    using assms(2) by auto
  note any = constructor_any [OF construct_fails(4) ok construct_fails(5)]
  then have "mem_ok t" by simp
  moreover from any vs(2) have "\<forall>that \<in> set vs. serves that t"
    using serves_same serves_new by (elim conjE may_addE) blast+
  ultimately show ?thesis using construct_fails(3) vs(1) by simp
next
  case (call this vs k s r t)
  have "mem.truncate t = mem.truncate s" using keepsD [OF invoke_frame call(5)] .
  note same = same_memory [OF this]
  with call assms(2) show ?thesis by (auto simp: serves_same [OF same(2)])
next
  case (destroy this vs s t)
  then have ok: "mem_ok s" and vs: "distinct vs" "\<forall>that \<in> set vs. serves that s"
    using assms(2) by auto
  obtain a c where d: "simcrsServiceContext this = Some a" "contexts s a = Some c"
    "contexts t = (contexts s)(a \<mapsto> emptied c)" "mem_ok t"
    using destroy_any [OF ok _ destroy(5)] vs(2) destroy(4) by blast
  have "serves that t" if "that \<in> set (remove1 this vs)" for that
  proof -
    have "that \<in> set vs" "that \<noteq> this" using that vs(1) by auto
    then obtain b e where "simcrsServiceContext that = Some b" "contexts s b = Some e"
      "context_complete e" "b \<noteq> a"
      using vs(2) d(1) service_eqI [of that this] unfolding serves_def by fastforce
    then show ?thesis using d(3) unfolding serves_def by simp
  qed
  with destroy(3) vs(1) d(4) show ?thesis by simp
next
  case (clean s t)
  then have "mem_ok s" using assms(2) by simp
  from cleanFactory_run [OF this] clean mem_ok_cleaned show ?thesis by auto
qed

lemma step_only_live_refs:
  assumes "crs_step A ev u v" "all_serve u" "only_live_refs u" "ev \<noteq> Construct_Fails"
  shows "only_live_refs v"
  using assms(1)
proof cases
  case (construct m s this t vs)
  then have ok: "mem_ok s" using assms(2) by auto
  obtain a c where "mem_ok t" "simcrsServiceContext this = Some a" "contexts s a = None"
    "contexts t = (contexts s)(a \<mapsto> c)" "context_complete c"
    by (rule constructor_Ret [OF construct(4) ok construct(5)])
  with construct assms(3) show ?thesis by auto
next
  case (call this vs k s r t)
  have "mem.truncate t = mem.truncate s" using keepsD [OF invoke_frame call(5)] .
  note same = same_memory [OF this]
  with call assms(3) show ?thesis by simp
next
  case (destroy this vs s t)
  then have ok: "mem_ok s" "serves this s" "distinct vs" using assms(2) by auto
  obtain a c where d: "simcrsServiceContext this = Some a" "contexts s a = Some c"
    "contexts t = (contexts s)(a \<mapsto> emptied c)" "mem_ok t"
    by (rule destroy_any [OF ok(1,2) destroy(5)])
  have "context_refs x e = 0"
    if "contexts t b = Some e" "\<forall>that \<in> set (remove1 this vs). simcrsServiceContext that \<noteq> Some b"
    for b e x
  proof (cases "b = a")
    case True
    with that d show ?thesis by auto
  next
    case False
    have "simcrsServiceContext that \<noteq> Some b" if "that \<in> set vs" for that
      using that \<open>\<forall>that \<in> set (remove1 this vs). simcrsServiceContext that \<noteq> Some b\<close> d(1) False
        ok(3) by (cases "that = this") auto
    with assms(3) destroy that(1) d(3) False show ?thesis by auto
  qed
  with destroy show ?thesis by auto
next
  case (clean s t)
  then have "mem_ok s" using assms(2) by simp
  from cleanFactory_run [OF this] clean show ?thesis by (auto simp: cleaned_def)
qed (use assms(4) in simp)

lemma reachable_all_serve: "reachable A P u \<Longrightarrow> all_serve u"
  by (induction rule: reachable.induct) (auto intro: step_all_serve)

lemma reachable_only_live:
  "reachable A P u \<Longrightarrow> \<not> P Construct_Fails \<Longrightarrow> only_live_refs u"
proof (induction rule: reachable.induct)
  case (start w)
  show ?case by (simp add: fresh_state_def)
next
  case (step u ev v)
  from step.hyps(2) step.prems have "ev \<noteq> Construct_Fails" by auto
  with step show ?case by (blast intro: step_only_live_refs reachable_all_serve)
qed

text \<open>Two reachable states, with one live service and with none again.\<close>

definition no_failure :: "event \<Rightarrow> bool" where
  "no_failure ev = (case ev of Construct_Fails \<Rightarrow> False | _ \<Rightarrow> True)"

lemma sample_reachable:
  "reachable (echo_apis (\<lambda>_. True) []) no_failure ([sample_service], sample_state True)"
  by (rule reachable.step [OF reachable.start, where ev = Construct])
    (auto simp: no_failure_def intro!: crs_step.construct [OF ctor_log] sample_run)

lemma sample_destroy_step:
  "crs_step (echo_apis (\<lambda>_. True) []) Destroy ([sample_service], sample_state True)
     ([], (sample_state True)\<lparr>contexts := [2 \<mapsto> emptied (sample_context True)]\<rparr>)"
proof -
  have "SIMCRS_Service_destroy (echo_apis (\<lambda>_. True) []) sample_service (sample_state True)
      = (Ret (), (sample_state True)\<lparr>contexts := [2 \<mapsto> emptied (sample_context True)]\<rparr>)"
    using destroy_run [OF sample_pointer sample_alive [of True]]
    by (simp add: sample_state_def destroyed_def)
  from crs_step.destroy [OF _ this, of "[sample_service]"] show ?thesis by simp
qed

lemma sample_destroyed:
  "reachable (echo_apis (\<lambda>_. True) []) no_failure
     ([], (sample_state True)\<lparr>contexts := [2 \<mapsto> emptied (sample_context True)]\<rparr>)"
  by (rule reachable.step [OF sample_reachable _ sample_destroy_step]) (simp add: no_failure_def)

section \<open>Properties\<close>

text \<open>
  C18. In every reachable state, after any sequence of constructions (failed ones included),
  method calls, destructions and clean-ups with no service alive, the factories' memory is
  well formed, no two live services share a context, and each has a live and complete one.
\<close>

theorem reachable_services_serve:
  assumes "reachable A P (vs, s)"
  shows "mem_ok s \<and> distinct (map simcrsServiceContext vs) \<and> (\<forall>this \<in> set vs. serves this s)"
proof -
  have "mem_ok s" "distinct vs" "\<forall>this \<in> set vs. serves this s"
    using reachable_all_serve [OF assms] by simp_all
  moreover have "inj_on simcrsServiceContext (set vs)"
    by (rule inj_onI) (rule service_eqI)
  ultimately show ?thesis by (simp add: distinct_map)
qed

theorem reachable_services_serve_witness:
  "mem_ok (sample_state True) \<and> serves sample_service (sample_state True)"
  using reachable_services_serve [OF sample_reachable] by simp

text \<open>
  C19. No reachable state is one step from a fault: with components that do not stop, a
  well-formed call on a live service returns or throws, and its destructor returns.
\<close>

theorem reachable_no_fault:
  assumes "reachable A P (vs, s)" and "this \<in> set vs" and "quiet A" and "well_formed_call k"
  shows "\<not> is_halt (fst (invoke A k this s)) \<and>
    (\<exists>t. SIMCRS_Service_destroy A this s = (Ret (), t))"
proof
  have serves: "serves this s" using reachable_all_serve [OF assms(1)] assms(2) by simp
  show "\<not> is_halt (fst (invoke A k this s))"
    using safe_methods.op_no_fault assms(3,4) serves by blast
  show "\<exists>t. SIMCRS_Service_destroy A this s = (Ret (), t)"
    using serves destroy_run unfolding serves_def by blast
qed

theorem reachable_no_fault_witness:
  "\<exists>t. SIMCRS_Service_destroy (echo_apis (\<lambda>_. True) []) sample_service (sample_state True)
     = (Ret (), t)"
  using reachable_no_fault [OF sample_reachable _ quiet_echo, of sample_service Csv]
  by (simp add: well_formed_call_def)

text \<open>
  Unless a constructor has failed, the contexts keep no service alive longer than they
  should: when every service has been destroyed, no external service is referred to by any
  context, although the contexts themselves remain until the factories are cleaned.
\<close>

lemma reachable_no_leak:
  assumes "reachable A P ([], s)" and "\<not> P Construct_Fails"
  shows "held_refs x s = 0"
proof -
  have "context_refs x c = 0" if "contexts s a = Some c" for a c
    using reachable_only_live [OF assms] that by auto
  then show ?thesis unfolding held_refs_def by (auto intro!: sum.neutral)
qed

text \<open>
  Contexts outlive their services: no step but a clean-up of the factories removes a
  context from memory, the destruction of a service included.
\<close>

lemma contexts_are_retained:
  assumes "all_serve u" and "crs_step A ev u v" and "ev \<noteq> Clean"
  shows "dom (contexts (snd u)) \<subseteq> dom (contexts (snd v))"
  using assms(2)
proof cases
  case (construct m s this t vs)
  then show ?thesis
    using constructor_any [OF construct(4) _ construct(5)] may_add_dom assms(1) by fastforce
next
  case (construct_fails m s e t vs)
  then show ?thesis
    using constructor_any [OF construct_fails(4) _ construct_fails(5)] may_add_dom assms(1)
    by fastforce
next
  case (call this vs k s r t)
  have "mem.truncate t = mem.truncate s" using keepsD [OF invoke_frame call(5)] .
  with call same_memory(2) [OF this] show ?thesis by simp
next
  case (destroy this vs s t)
  then have ok: "mem_ok s" "serves this s" using assms(1) by auto
  obtain a c where "simcrsServiceContext this = Some a" "contexts s a = Some c"
    "contexts t = (contexts s)(a \<mapsto> emptied c)" "mem_ok t"
    by (rule destroy_any [OF ok destroy(5)])
  with destroy show ?thesis by auto
qed (use assms(3) in simp)

end
