(* ===== verification/CRS_Refinement.thy ===== *)
theory CRS_Refinement
  imports CRS_Methods
begin

text \<open>
  What the public methods of \<open>SIMCRS_Service\<close> promise, without the memory of SimCRS: for the
  handlers of a service, each call is a program on the external components alone. The
  methods are shown to refine it: with a live context that holds these handlers, a call ends
  with the outcome of its specification, has the same effect on the external components, and
  no effect at all on the memory of SimCRS.
\<close>

section \<open>The specification\<close>

text \<open>
  What a context stands for: who owns StdAir, the handlers, the CRS code, and the pointer to
  the event manager, which the methods do not read.
\<close>

record crew =
  ownsStdair :: bool
  stdairH :: svc
  airtspH :: svc
  airinvH :: svc
  simfqtH :: svc
  codeH :: CRSCode_T
  sevmgrH :: sptr

definition crew_of :: "service_context \<Rightarrow> crew option" where
  "crew_of c = (case (ownStdairService c, stdairService c, airtspService c, airinvService c,
       simfqtService c) of
      (Some own, Some st, Some ts, Some ai, Some fq) \<Rightarrow>
        Some \<lparr>ownsStdair = own, stdairH = st, airtspH = ts, airinvH = ai, simfqtH = fq,
              codeH = CRSCode c, sevmgrH = sevmgrService c\<rparr>
    | _ \<Rightarrow> None)"

definition shown :: "crew \<Rightarrow> string" where
  "shown h = ''SIMCRS_ServiceContext ['' @ codeH h @ ''] - Owns StdAir service: ''
     @ show_bool (ownsStdair h)"

text \<open>
  A timed request: the chronometer is started, the request made, some message logged, and then
  the elapsed time; the answer is the request's.
\<close>

definition timed ::
  "'w apis \<Rightarrow> crew \<Rightarrow> string \<Rightarrow> ('a \<Rightarrow> ('w, unit) prog) \<Rightarrow> ('w, 'a) prog \<Rightarrow> ('w, 'a) prog" where
  "timed A h label note m = bindM (chrono_start (utilA A)) (\<lambda>start.
     bindM m (\<lambda>x.
     seqM (note x)
    (bindM (chrono_elapsed (utilA A) start) (\<lambda>measure.
     seqM (log_debug (utilA A) (label @ measure @ '' - '' @ shown h)) (ret x)))))"

definition plan_of ::
  "(bool \<Rightarrow> svc \<Rightarrow> svc \<Rightarrow> svc \<Rightarrow> svc \<Rightarrow> ext_call list) \<Rightarrow> crew \<Rightarrow> ext_call list" where
  "plan_of p h = p (ownsStdair h) (stdairH h) (airtspH h) (airinvH h) (simfqtH h)"

text \<open>
  The requests that the batch program makes as well have names of their own. A sale runs the
  script of the solution and asks for one seat per person.
\<close>

definition spec_paths :: "'w apis \<Rightarrow> crew \<Rightarrow> booking_request \<Rightarrow> ('w, travel_solution list) prog"
where
  "spec_paths A h q = timed A h ''Travel solution retrieving: '' (\<lambda>_. ret ())
     (with_local [] (airtsp_buildSegmentPathList (airtspA A) (airtspH h) q))"

definition spec_quote ::
  "'w apis \<Rightarrow> crew \<Rightarrow> booking_request \<Rightarrow> travel_solution list
   \<Rightarrow> ('w, travel_solution list) prog" where
  "spec_quote A h q ts = timed A h ''Fare Quote retrieving: '' (\<lambda>_. ret ())
     (with_local ts (simfqt_quotePrices (simfqtA A) (simfqtH h) q))"

definition spec_sell :: "'w apis \<Rightarrow> crew \<Rightarrow> travel_solution \<Rightarrow> PartySize_T \<Rightarrow> ('w, bool) prog" where
  "spec_sell A h t n = timed A h ''Booking sell: '' (\<lambda>sold. log_debug (utilA A)
      (''Made a sell of '' @ show_party (utilA A) n
       @ '' persons on the following travel solution: '' @ describe_solution (utilA A) t
       @ '' with the chosen fare option: ''
       @ describe_fare_option (utilA A) (chosenFareOption t)
       @ ''. Successful? '' @ show_bool sold))
     (run_script A (airinvH h) (seats_of_party (utilA A) n) (sale_script t) False)"

definition spec_csv :: "'w apis \<Rightarrow> crew \<Rightarrow> ('w, string) prog" where
  "spec_csv A h = bindM (stdair_getBomRoot (stdairA A) (stdairH h))
     (stdair_csvDisplay (stdairA A) (stdairH h))"

text \<open>
  The calls, one by one. The availability of a list of solutions is asked for solution by
  solution and the list of the answers is returned.
\<close>

fun spec_call :: "'w apis \<Rightarrow> crew \<Rightarrow> public_call \<Rightarrow> ('w, reply) prog" where
  "spec_call A h (Parse_And_Load f g i j k l) =
     seqM (run_calls A (plan_of (parse_plan f g i j k l) h)) (ret No_Reply)"
| "spec_call A h Build_Sample_Bom = seqM (run_calls A (plan_of sample_plan h)) (ret No_Reply)"
| "spec_call A h Clone_Persistent_Bom = seqM (run_calls A (plan_of clone_plan h)) (ret No_Reply)"
| "spec_call A h (Complementary_Links r) = ret No_Reply"
| "spec_call A h (Sample_Solutions ts) =
     as_reply Solutions_Reply
       (with_local ts (stdair_buildSampleTravelSolutions (stdairA A) (stdairH h)))"
| "spec_call A h (Sample_Request b) =
     as_reply Request_Reply (stdair_buildSampleBookingRequest (stdairA A) (stdairH h) b)"
| "spec_call A h (Segment_Paths q) = as_reply Solutions_Reply (spec_paths A h q)"
| "spec_call A h (Fare_Quote q ts) = as_reply Solutions_Reply (spec_quote A h q ts)"
| "spec_call A h (Availability ts) =
     as_reply Solutions_Reply (timed A h ''Availability retrieval: '' (\<lambda>_. ret ())
       (mapM (\<lambda>t. with_local t (airinv_calculateAvailability (airinvA A) (airinvH h))) ts))"
| "spec_call A h (Sell t n) = as_reply Bool_Reply (spec_sell A h t n)"
| "spec_call A h (Sell_Key k d n) =
     as_reply Bool_Reply
       (airinv_sell_key (airinvA A) (airinvH h) k d (seats_of_party (utilA A) n))"
| "spec_call A h (Cancel x) =
     as_reply Bool_Reply (timed A h ''Booking cancellation: '' (\<lambda>_. log_debug (utilA A)
         (''Made a cancellation of '' @ describe_cancellation (utilA A) x))
       (bindM (mapM (\<lambda>b. airinv_cancel (airinvA A) (airinvH h) b (cancelledPartySize x))
                 (classIDList x))
         (\<lambda>bs. ret (last (False # bs)))))"
| "spec_call A h (Take_Snapshots q) =
     seqM (airinv_takeSnapshots (airinvA A) (airinvH h) q) (ret No_Reply)"
| "spec_call A h (Optimise q) = seqM (airinv_optimise (airinvA A) (airinvH h) q) (ret No_Reply)"
| "spec_call A h (Init_Snapshots b e) =
     seqM (airinv_initSnapshotAndRMEvents (airinvA A) (airinvH h) b e) (ret No_Reply)"
| "spec_call A h (Json j) =
     as_reply Text_Reply (airinv_jsonHandler (airinvA A) (airinvH h) j)"
| "spec_call A h Csv = as_reply Text_Reply (spec_csv A h)"
| "spec_call A h (Csv_List ts) =
     as_reply Text_Reply (stdair_csvDisplay_list (stdairA A) (stdairH h) ts)"
| "spec_call A h (List_Flights a n) =
     as_reply Text_Reply (airinv_list (airinvA A) (airinvH h) a n)"
| "spec_call A h (Csv_Flight a n d) =
     as_reply Text_Reply (airinv_csvDisplay (airinvA A) (airinvH h) a n d)"

section \<open>Refinement rules\<close>

lemma crew_of_handlers:
  assumes "crew_of c = Some h"
  shows "handlers c (ownsStdair h) (stdairH h) (airtspH h) (airinvH h) (simfqtH h)"
    and "display c = ret (shown h)"
  using assms
  by (auto simp: crew_of_def handlers_def shown_def display_def shortDisplay_def
      split: option.splits simp del: run_simps)

lemma crew_of_complete: "context_complete c \<Longrightarrow> \<exists>h. crew_of c = Some h"
  by (elim complete_getters) (auto simp: crew_of_def)

lemma performs_as_reply [performs_intros]:
  "performs this c P m \<Longrightarrow> performs this c (as_reply f P) (as_reply f m)"
  unfolding as_reply_def by (intro performs_intros)

lemma as_reply_unit: "as_reply (\<lambda>_. y) m = seqM m (ret y)"
  by (simp add: as_reply_def seqM_def)

text \<open>A measured request with a reference parameter, in the code and in the specification.\<close>

lemma performs_log_measure:
  assumes "crew_of c = Some h"
  shows "performs this c (log_measure A label start c)
    (bindM (chrono_elapsed (utilA A) start) (\<lambda>measure.
       log_debug (utilA A) (label @ measure @ '' - '' @ shown h)))"
  unfolding log_measure_def crew_of_handlers(2) [OF assms] bindM_simps
  by (intro performs_intros)

lemma with_local_on_world: "with_local v (on_world_ref m) = on_world (with_local v m)"
  by (rule ext) (simp add: with_local_def on_world_ref_def on_world_def
      split: prod.split outcome.split)

lemma with_local_beside:
  "with_local v (bindM (beside_ref P) f) = bindM P (\<lambda>x. with_local v (f x))"
  by (rule ext) (simp add: with_local_def beside_ref_def bindM_cases
      split: prod.split outcome.split)

lemma with_local_then_beside:
  "with_local v (seqM M (beside_ref P)) = bindM (with_local v M) (\<lambda>x. seqM P (ret x))"
  by (rule ext) (simp add: with_local_def beside_ref_def bindM_cases seqM_cases
      split: prod.split outcome.split)

lemmas with_local_rules = with_local_on_world with_local_beside with_local_then_beside
  with_local_checked

lemma with_local_checked_ref:
  "with_local v (bindM (beside_ref (checked_context this)) f)
   = bindM (checked_context this) (\<lambda>c. with_local v (f c))"
  by (rule with_local_checked)

lemma availability_answers:
  "with_local ts (DistributionManager_calculateAvailability A ai)
   = mapM (\<lambda>t. with_local t (airinv_calculateAvailability (airinvA A) ai)) ts"
proof (rule ext)
  fix w
  show "with_local ts (DistributionManager_calculateAvailability A ai) w
    = mapM (\<lambda>t. with_local t (airinv_calculateAvailability (airinvA A) ai)) ts w"
    unfolding with_local_def DistributionManager_calculateAvailability_def prod.case
  proof (induction ts arbitrary: w)
    case Nil
    then show ?case by simp
  next
    case (Cons t ts)
    show ?case
      by (auto simp: bindM_cases Cons.IH [symmetric] split: prod.splits outcome.splits)
  qed
qed


lemma with_local_getters:
  "with_local v (bindM (getSTDAIR_Service c) f) = bindM (getSTDAIR_Service c) (\<lambda>x. with_local v (f x))"
  "with_local v (bindM (getAIRTSP_Service c) f) = bindM (getAIRTSP_Service c) (\<lambda>x. with_local v (f x))"
  "with_local v (bindM (getSIMFQT_Service c) f) = bindM (getSIMFQT_Service c) (\<lambda>x. with_local v (f x))"
  "with_local v (bindM (getAIRINV_Service c) f) = bindM (getAIRINV_Service c) (\<lambda>x. with_local v (f x))"
  by (auto simp: getter_defs deref_sptr_def with_local_def fun_eq_iff split: option.split)

lemma timed_quietly:
  "timed A h label (\<lambda>_. ret ()) m = bindM (chrono_start (utilA A)) (\<lambda>start. bindM m (\<lambda>x.
     seqM (bindM (chrono_elapsed (utilA A) start) (\<lambda>measure.
       log_debug (utilA A) (label @ measure @ '' - '' @ shown h))) (ret x)))"
  by (simp add: timed_def seqM_def bindM_assoc del: run_simps)

lemma timed_noting:
  "timed A h label note m = bindM (chrono_start (utilA A)) (\<lambda>start. bindM m (\<lambda>x.
     seqM (note x) (seqM (bindM (chrono_elapsed (utilA A) start) (\<lambda>measure.
       log_debug (utilA A) (label @ measure @ '' - '' @ shown h))) (ret x))))"
  by (simp add: timed_def seqM_def bindM_assoc del: run_simps)

lemma timed_methods_perform:
  assumes h: "crew_of c = Some h"
  shows "performs this c (SIMCRS_calculateSegmentPathList A this q) (spec_paths A h q)"
    and "performs this c (with_local ts (SIMCRS_fareQuote A this q)) (spec_quote A h q ts)"
    and "performs this c (with_local ts (SIMCRS_calculateAvailability A this))
      (timed A h ''Availability retrieval: '' (\<lambda>_. ret ())
        (with_local ts (DistributionManager_calculateAvailability A (airinvH h))))"
  unfolding plain_method_defs ref_method_defs with_local_rules with_local_getters timed_quietly
    spec_paths_def spec_quote_def
  by (rule performs_checked performs_handlers [OF crew_of_handlers(1) [OF h]]
      performs_log_measure [OF h] performs_intros)+

lemma sales_perform:
  assumes h: "crew_of c = Some h"
  shows "performs this c (SIMCRS_sell A this t n) (spec_sell A h t n)"
    and "performs this c (invoke A (Cancel x) this) (spec_call A h (Cancel x))"
  unfolding invoke.simps spec_call.simps plain_method_defs timed_noting spec_sell_def
    sell_runs_script [symmetric] cancellation.loop_latest [symmetric]
    DistributionManager_playCancellation_def [symmetric]
  by (rule performs_checked performs_handlers [OF crew_of_handlers(1) [OF h]]
      performs_log_measure [OF h] performs_intros)+

lemma displays_perform:
  assumes h: "crew_of c = Some h"
  shows "performs this c (SIMCRS_csvDisplay A this) (spec_csv A h)"
    and "performs this c (SIMCRS_buildSampleBookingRequest A this b)
      (stdair_buildSampleBookingRequest (stdairA A) (stdairH h) b)"
  unfolding plain_method_defs spec_csv_def
  by (rule performs_checked performs_handlers [OF crew_of_handlers(1) [OF h]]
      performs_intros)+

text \<open>Every call performs its specification.\<close>

lemma plain_calls_perform:
  assumes h: "crew_of c = Some h"
  shows "performs this c (invoke A (Sample_Solutions ts) this) (spec_call A h (Sample_Solutions ts))"
    and "performs this c (invoke A (Sell_Key k d n) this) (spec_call A h (Sell_Key k d n))"
    and "performs this c (invoke A (Json j) this) (spec_call A h (Json j))"
    and "performs this c (invoke A (Csv_List ts) this) (spec_call A h (Csv_List ts))"
    and "performs this c (invoke A (List_Flights al fn) this) (spec_call A h (List_Flights al fn))"
    and "performs this c (invoke A (Csv_Flight al fn dt) this) (spec_call A h (Csv_Flight al fn dt))"
    and "performs this c (invoke A (Take_Snapshots sn) this) (spec_call A h (Take_Snapshots sn))"
    and "performs this c (invoke A (Optimise ev) this) (spec_call A h (Optimise ev))"
    and "performs this c (invoke A (Init_Snapshots d1 d2) this) (spec_call A h (Init_Snapshots d1 d2))"
  unfolding invoke.simps spec_call.simps plain_method_defs ref_method_defs
    as_reply_unit [symmetric] with_local_rules with_local_getters
  by (rule performs_checked performs_handlers [OF crew_of_handlers(1) [OF h]]
      performs_intros)+

lemma load_calls_perform:
  assumes h: "crew_of c = Some h"
  shows "performs this c (invoke A (Parse_And_Load f g i j k l) this)
      (spec_call A h (Parse_And_Load f g i j k l))"
    and "performs this c (invoke A Build_Sample_Bom this) (spec_call A h Build_Sample_Bom)"
    and "performs this c (invoke A Clone_Persistent_Bom this) (spec_call A h Clone_Persistent_Bom)"
  unfolding invoke.simps spec_call.simps plan_of_def as_reply_unit [symmetric]
  by (rule performs_as_reply parse_performs sample_performs clone_performs
      crew_of_handlers(1) [OF h])+

lemma named_calls_perform:
  assumes h: "crew_of c = Some h"
  shows "performs this c (invoke A (Sample_Request b) this) (spec_call A h (Sample_Request b))"
    and "performs this c (invoke A Csv this) (spec_call A h Csv)"
    and "performs this c (invoke A (Segment_Paths q) this) (spec_call A h (Segment_Paths q))"
    and "performs this c (invoke A (Fare_Quote q ts) this) (spec_call A h (Fare_Quote q ts))"
    and "performs this c (invoke A (Availability ts) this) (spec_call A h (Availability ts))"
    and "performs this c (invoke A (Sell t n) this) (spec_call A h (Sell t n))"
  unfolding invoke.simps spec_call.simps availability_answers [symmetric]
  by (rule performs_as_reply timed_methods_perform displays_perform sales_perform h)+

lemma links_perform:
  "performs this c (invoke A (Complementary_Links r) this) (spec_call A h (Complementary_Links r))"
  by (simp add: performs_def as_reply_def SIMCRS_buildComplementaryLinks_def on_world_def)

lemma call_performs:
  assumes "crew_of c = Some h"
  shows "performs this c (invoke A k this) (spec_call A h k)"
  using plain_calls_perform [OF assms] sales_perform(2) [OF assms] named_calls_perform [OF assms]
    load_calls_perform [OF assms] links_perform [of this c A _ h]
  by (cases k) (simp_all only:)

section \<open>The contract of a specified method\<close>

text \<open>
  A method with a specification on the external components: the client of a service can
  forget the memory of SimCRS and reason on the specification.
\<close>

locale specified_client = framed_client op
  for op :: "simcrs_service \<Rightarrow> (('w, 'x) crs_state_scheme, 'a) prog" +
  fixes spec :: "crew \<Rightarrow> ('w, 'a) prog"
  assumes op_performs: "crew_of c = Some h \<Longrightarrow> performs this c (op this) (spec h)"
begin

lemma op_spec:
  assumes "simcrsServiceContext this = Some a" "contexts s a = Some c" "crew_of c = Some h"
  shows "op this s = on_world (spec h) s"
  by (rule performsD [OF op_performs [OF assms(3)] assms(1,2)])

lemma op_blind:
  assumes "simcrsServiceContext this = Some a" "contexts s a = Some c"
    and "simcrsServiceContext that = Some b" "contexts t b = Some d"
    and "crew_of c = Some h" "crew_of d = Some h" "world s = world t"
  shows "fst (op this s) = fst (op that t)" "world (snd (op this s)) = world (snd (op that t))"
  using op_spec [OF assms(1,2,5)] op_spec [OF assms(3,4,6)] assms(7)
  by (simp_all add: on_world_def split: prod.split)

end

interpretation specified_methods: specified_client "invoke A k" "\<lambda>h. spec_call A h k"
  for A k
  by unfold_locales (rule call_performs)

section \<open>Properties\<close>

text \<open>
  C2. The public methods refine a specification without memory: with a live context that
  holds the handlers \<open>h\<close>, every call (all twenty of them) ends with the outcome of
  \<open>spec_call\<close>, leaves the external components as the specification does, and changes nothing
  else.
\<close>

theorem methods_refine_spec:
  assumes "simcrsServiceContext this = Some a" and "contexts s a = Some c"
    and "crew_of c = Some h"
  shows "invoke A k this s = (case spec_call A h k (world s) of (r, w) \<Rightarrow> (r, s\<lparr>world := w\<rparr>))"
  using specified_methods.op_spec [OF assms] by (simp add: on_world_def)

lemma crew_sample: "crew_of (sample_context own) = Some \<lparr>ownsStdair = own, stdairH = 0,
  airtspH = 2, airinvH = 3, simfqtH = 1, codeH = ''1P'',
  sevmgrH = (if own then None else Some 9)\<rparr>"
  by (simp add: crew_of_def sample_context_def)

theorem methods_refine_spec_witness:
  "invoke (echo_apis (\<lambda>_. True) []) (Availability [two_segments]) sample_service
     (sample_state True) =
   (Ret (Solutions_Reply [two_segments\<lparr>travelSolutionRest := [(''avail'', ''done'')]\<rparr>]),
    (sample_state True)\<lparr>world :=
      (fst (world (sample_state True)) @ [(''airinv.avail'', 3)], 4)\<rparr>)"
  by (subst methods_refine_spec [OF sample_pointer sample_alive crew_sample])
    (simp add: echo_apis_def timed_def as_reply_def with_local_def bindM_cases
      seqM_cases sample_state_def two_segments_def)

text \<open>
  C27. The availability calculation, although it writes the list in place, is a request per
  solution whose answers are put together in the order of the list: as long as the caller
  looks at the list only when the calculation has returned, the two are the same program.
\<close>

theorem availability_is_elementwise:
  "with_local ts (DistributionManager_calculateAvailability A ai)
   = mapM (\<lambda>t. with_local t (airinv_calculateAvailability (airinvA A) ai)) ts"
  by (rule availability_answers)

section \<open>Typed replies\<close>

text \<open>
  The return types of the methods, as the class declares them; a method with a list passed by
  reference gives the list back.
\<close>

datatype reply_type = Void_Type | Bool_Type | Text_Type | Request_Type | Solutions_Type

fun type_of_reply :: "reply \<Rightarrow> reply_type" where
  "type_of_reply No_Reply = Void_Type"
| "type_of_reply (Bool_Reply b) = Bool_Type"
| "type_of_reply (Text_Reply t) = Text_Type"
| "type_of_reply (Request_Reply q) = Request_Type"
| "type_of_reply (Solutions_Reply ts) = Solutions_Type"

fun return_type :: "public_call \<Rightarrow> reply_type" where
  "return_type (Parse_And_Load f g h i j k) = Void_Type"
| "return_type Build_Sample_Bom = Void_Type"
| "return_type Clone_Persistent_Bom = Void_Type"
| "return_type (Complementary_Links r) = Void_Type"
| "return_type (Sample_Solutions ts) = Solutions_Type"
| "return_type (Sample_Request b) = Request_Type"
| "return_type (Segment_Paths q) = Solutions_Type"
| "return_type (Fare_Quote q ts) = Solutions_Type"
| "return_type (Availability ts) = Solutions_Type"
| "return_type (Sell t n) = Bool_Type"
| "return_type (Sell_Key k c n) = Bool_Type"
| "return_type (Cancel x) = Bool_Type"
| "return_type (Take_Snapshots q) = Void_Type"
| "return_type (Optimise q) = Void_Type"
| "return_type (Init_Snapshots b e) = Void_Type"
| "return_type (Json j) = Text_Type"
| "return_type Csv = Text_Type"
| "return_type (Csv_List ts) = Text_Type"
| "return_type (List_Flights a n) = Text_Type"
| "return_type (Csv_Flight a n d) = Text_Type"

text \<open>The availability calculation gives back as many solutions as it was given.\<close>

definition typed_reply :: "public_call \<Rightarrow> reply \<Rightarrow> bool" where
  "typed_reply k r \<longleftrightarrow> type_of_reply r = return_type k \<and>
     (case (k, r) of (Availability ts, Solutions_Reply us) \<Rightarrow> length us = length ts | _ \<Rightarrow> True)"

lemma as_reply_Ret_iff:
  "as_reply f m s = (Ret r, t) \<longleftrightarrow> (\<exists>x. m s = (Ret x, t) \<and> r = f x)"
  by (auto simp: as_reply_def bindM_eq_Ret_iff)

lemma availability_Ret_length:
  assumes "with_local ts (SIMCRS_calculateAvailability A this) s = (Ret us, t)"
  shows "length us = length ts"
  using assms availability_keeps_length
  by (fastforce simp: SIMCRS_calculateAvailability_def with_local_def bindM_cases seqM_cases
      beside_ref_def on_world_ref_def getter_defs deref_sptr_def
      split: prod.splits outcome.splits option.splits)

lemma invoke_typed: "invoke A k this s = (Ret r, t) \<Longrightarrow> typed_reply k r"
  by (cases k) (auto simp: as_reply_Ret_iff typed_reply_def availability_Ret_length
)

text \<open>
  C22. Type soundness of the interface: in an environment that does not stop, a well-formed
  call on a service with a live and complete context is never stuck. It throws, or it returns
  a value of the type the method is declared with (and as many solutions as it was given, for
  the availability), and the service can be called again.
\<close>

theorem calls_are_type_sound:
  assumes "quiet A" and "well_formed_call k" and "serves this s"
  shows "((\<exists>e. fst (invoke A k this s) = Throw e) \<or>
      (\<exists>r. fst (invoke A k this s) = Ret r \<and> typed_reply k r)) \<and>
    serves this (snd (invoke A k this s))"
proof -
  obtain r t where run: "invoke A k this s = (r, t)" by (cases "invoke A k this s")
  from settlesD [OF invoke_settles [OF assms(1,2)] assms(3) run] run invoke_typed
  show ?thesis by (cases r) auto
qed

theorem calls_are_type_sound_witness:
  "\<exists>r. fst (invoke (echo_apis (\<lambda>_. True) []) Csv sample_service (sample_state True)) = Ret r \<and>
     typed_reply Csv r"
proof -
  have run: "fst (invoke (echo_apis (\<lambda>_. True) []) Csv sample_service (sample_state True))
      = Ret (Text_Reply ''csv'')"
    by (simp add: method_defs as_reply_def checked_context_cases bindM_cases on_world_def
        getter_defs echo_apis_def sample_defs)
  show ?thesis
    using calls_are_type_sound [OF quiet_echo, of Csv sample_service "sample_state True"
        "\<lambda>_. True" "[]", unfolded run]
    by (simp add: run well_formed_call_def serves_def del: invoke.simps)
qed

end
