(* ===== verification/CRS_Traces.thy ===== *)
theory CRS_Traces
  imports CRS_Lifecycle CRS_Refinement
begin

text \<open>
  Whole histories of a process: the list of the events from one state to another. The number
  of contexts in memory is bounded by counting events, from every reachable state the process
  can be brought to an end with nothing left in memory, and started again, and the references
  on external services are those of the services that are alive.
\<close>

section \<open>Traces\<close>

abbreviation trace :: "'w apis \<Rightarrow> event list \<Rightarrow> 'w system \<Rightarrow> 'w system \<Rightarrow> bool" where
  "trace A \<equiv> runs (crs_step A)"

lemmas trace_Nil = runs_Nil [where step = "crs_step A" for A]
lemmas trace_snoc = runs_snoc [where step = "crs_step A" for A]
lemmas trace_one = runs_one [where step = "crs_step A" for A]
lemmas trace_append = runs_append [where step = "crs_step A" for A]

lemma trace_all_serve: "trace A evs u v \<Longrightarrow> all_serve u \<Longrightarrow> all_serve v"
  by (induction rule: runs.induct) (auto intro: step_all_serve)

lemma fresh_all_serve: "all_serve ([], fresh_state w)"
  using reachable_all_serve [OF reachable.start] .

lemma trace_reachable:
  assumes "trace A evs u v" "reachable A P u" "\<forall>ev \<in> set evs. P ev"
  shows "reachable A P v"
  using assms by (induction rule: runs.induct) (auto intro: reachable.step)

lemma reachable_trace: "reachable A P u \<Longrightarrow> \<exists>evs w. trace A evs ([], fresh_state w) u \<and>
    (\<forall>ev \<in> set evs. P ev)"
proof (induction rule: reachable.induct)
  case (start w)
  then show ?case using trace_Nil by fastforce
next
  case (step u ev v)
  then obtain evs w where "trace A evs ([], fresh_state w) u" "\<forall>ev \<in> set evs. P ev" by blast
  with step.hyps show ?case
    by (intro exI [of _ "evs @ [ev]"] exI [of _ w]) (auto intro: trace_snoc)
qed

section \<open>Counting contexts\<close>

text \<open>The events since the last clean-up of the factories.\<close>

definition since_clean :: "event list \<Rightarrow> event list" where
  "since_clean evs = rev (takeWhile (\<lambda>ev. ev \<noteq> Clean) (rev evs))"

definition nb_events :: "event \<Rightarrow> event list \<Rightarrow> nat" where
  "nb_events ev evs = length (filter (\<lambda>e. e = ev) evs)"

lemma since_clean_simps [simp]:
  "since_clean [] = []"
  "since_clean (evs @ [ev]) = (if ev = Clean then [] else since_clean evs @ [ev])"
  by (simp_all add: since_clean_def)

lemma nb_events_simps [simp]:
  "nb_events ev [] = 0" "nb_events ev (xs @ ys) = nb_events ev xs + nb_events ev ys"
  "nb_events ev (e # xs) = of_bool (e = ev) + nb_events ev xs"
  by (simp_all add: nb_events_def)

definition nb_contexts :: "'x mem_scheme \<Rightarrow> nat" where
  "nb_contexts m = card (dom (contexts m))"

lemma nb_contexts_new:
  assumes "mem_ok s" "contexts s a = None" "contexts t = (contexts s)(a \<mapsto> c)"
  shows "nb_contexts t = Suc (nb_contexts s)"
  using assms finite_contexts [OF assms(1)] by (simp add: nb_contexts_def domIff)

lemma nb_contexts_same: "contexts t = contexts s \<Longrightarrow> nb_contexts t = nb_contexts s"
  by (simp add: nb_contexts_def)

text \<open>What one step does to the number of live services and to the number of contexts.\<close>

definition counted :: "event \<Rightarrow> nat \<times> nat \<Rightarrow> nat \<times> nat \<Rightarrow> bool" where
  "counted ev p q = (case (p, q) of ((l, n), (l', n')) \<Rightarrow> (case ev of
      Construct \<Rightarrow> l' = Suc l \<and> n' = Suc n
    | Construct_Fails \<Rightarrow> l' = l \<and> n \<le> n' \<and> n' \<le> Suc n
    | Call k r \<Rightarrow> l' = l \<and> n' = n
    | Destroy \<Rightarrow> l = Suc l' \<and> n' = n
    | Clean \<Rightarrow> l = 0 \<and> l' = 0 \<and> n' = 0))"

fun counts :: "'w system \<Rightarrow> nat \<times> nat" where
  "counts (vs, s) = (length vs, nb_contexts s)"

lemma step_counted:
  assumes "crs_step A ev u v" "all_serve u"
  shows "counted ev (counts u) (counts v)"
  using assms
proof cases
  case (construct m s this t vs)
  then have ok: "mem_ok s" using assms(2) by simp
  obtain a c where "contexts s a = None" "contexts t = (contexts s)(a \<mapsto> c)"
    by (rule constructor_Ret [OF construct(4) ok construct(5)])
  from nb_contexts_new [OF ok this] construct show ?thesis by (simp add: counted_def)
next
  case (construct_fails m s e t vs)
  then have ok: "mem_ok s" using assms(2) by simp
  have "nb_contexts t = nb_contexts s \<or> nb_contexts t = Suc (nb_contexts s)"
    using conjunct2 [OF constructor_any [OF construct_fails(4) ok construct_fails(5)]]
      nb_contexts_new [OF ok] nb_contexts_same by (elim may_addE) blast+
  with construct_fails show ?thesis by (auto simp: counted_def)
next
  case (call this vs k s r t)
  have "mem.truncate t = mem.truncate s" using keepsD [OF invoke_frame call(5)] .
  from nb_contexts_same [OF same_memory(2) [OF this]] call show ?thesis
    by (simp add: counted_def)
next
  case (destroy this vs s t)
  then have ok: "mem_ok s" "serves this s" using assms(2) by auto
  obtain a c where "contexts s a = Some c" "contexts t = (contexts s)(a \<mapsto> emptied c)"
    by (rule destroy_any [OF ok destroy(5)])
  then have "nb_contexts t = nb_contexts s"
    by (auto simp: nb_contexts_def insert_absorb domI)
  moreover have "length vs = Suc (length (remove1 this vs))"
    using destroy(4) length_pos_if_in_set [OF destroy(4)] by (simp add: length_remove1)
  ultimately show ?thesis using destroy by (simp add: counted_def)
next
  case (clean s t)
  then have "mem_ok s" using assms(2) by simp
  from cleanFactory_run [OF this] clean show ?thesis
    by (auto simp: counted_def nb_contexts_def cleaned_def)
qed

lemma trace_counts:
  assumes "trace A evs ([], fresh_state w) v"
  shows "all_serve v \<and> (case counts v of (l, n) \<Rightarrow>
    l + nb_events Destroy (since_clean evs) = nb_events Construct (since_clean evs) \<and>
    nb_events Construct (since_clean evs) \<le> n \<and>
    n \<le> nb_events Construct (since_clean evs) + nb_events Construct_Fails (since_clean evs))"
  using assms
proof (induction evs "([] :: simcrs_service list, fresh_state w)" v rule: runs.induct)
  case runs_Nil
  then show ?case using fresh_all_serve by (simp add: nb_contexts_def fresh_state_def)
next
  case (runs_snoc evs v ev x)
  then have serve: "all_serve v" by simp
  from step_counted [OF runs_snoc.hyps(3) serve] runs_snoc.hyps(2)
    step_all_serve [OF runs_snoc.hyps(3) serve]
  show ?case
    by (cases "counts v"; cases "counts x"; cases ev) (auto simp: counted_def)
qed

section \<open>Shutting down and starting again\<close>

definition nothing_left :: "'x mem_scheme \<Rightarrow> 'y mem_scheme \<Rightarrow> bool" where
  "nothing_left s t \<longleftrightarrow> mem.truncate t = empty_mem\<lparr>nextAddr := nextAddr s\<rparr>"

lemma nothing_left_cleaned: "nothing_left s (cleaned A t) \<longleftrightarrow> nextAddr t = nextAddr s"
  by (simp add: nothing_left_def cleaned_def empty_mem_def mem.defs)

lemma nothing_left_ok: "nothing_left s t \<Longrightarrow> mem_ok t"
  using mem_ok_truncate [of t]
  by (simp add: nothing_left_def mem_ok_def service_layer_ok_def singletons_ok_def fresh_ok_def
      empty_mem_def)

lemma destroy_step:
  fixes s :: "'w crs_state"
  assumes "all_serve (this # vs, s)"
  obtains t where "crs_step A Destroy (this # vs, s) (vs, t)" "nextAddr t = nextAddr s"
proof -
  have "serves this s" using assms by simp
  then obtain a c where ac: "simcrsServiceContext this = Some a" "contexts s a = Some c"
    unfolding serves_def by blast
  have "crs_step A Destroy (this # vs, s) (remove1 this (this # vs), destroyed A a c s)"
    by (rule crs_step.destroy) (use destroy_run [OF ac] in simp_all)
  moreover have "nextAddr (destroyed A a c s) = nextAddr s" by (simp add: destroyed_def)
  ultimately show thesis using that by simp
qed

lemma trace_destroy:
  assumes "all_serve (vs, s)"
  shows "\<exists>t. trace A (replicate (length vs) Destroy) (vs, s) ([], t) \<and> nextAddr t = nextAddr s"
  using assms
proof (induction vs arbitrary: s)
  case Nil
  then show ?case using trace_Nil by fastforce
next
  case (Cons this vs)
  obtain t where t: "crs_step A Destroy (this # vs, s) (vs, t)" "nextAddr t = nextAddr s"
    by (rule destroy_step [OF Cons.prems])
  obtain u where u: "trace A (replicate (length vs) Destroy) (vs, t) ([], u)"
    "nextAddr u = nextAddr t"
    using Cons.IH [OF step_all_serve [OF t(1) Cons.prems]] by blast
  from trace_append [OF u(1) trace_one [OF t(1)]] u(2) t(2) show ?case by auto
qed

lemma shut_down:
  assumes "all_serve (vs, s)"
  shows "\<exists>t. trace A (replicate (length vs) Destroy @ [Clean]) (vs, s) ([], t) \<and>
    nothing_left s t"
proof -
  obtain t where t: "trace A (replicate (length vs) Destroy) (vs, s) ([], t)"
    "nextAddr t = nextAddr s"
    using trace_destroy [OF assms] by blast
  have "mem_ok t" using trace_all_serve [OF t(1) assms] by simp
  then have "crs_step A Clean ([], t) ([], cleaned A t)"
    using crs_step.clean [OF cleanFactory_run] by blast
  from trace_snoc [OF t(1) this] t(2) nothing_left_cleaned show ?thesis by blast
qed

lemma start_again:
  assumes "makes_return A" "mem_ok s"
  shows "\<exists>this t. crs_step A Construct (vs, s) (this # vs, t)"
proof -
  obtain this t where "SIMCRS_Service_log A sample_log ''1P'' s = (Ret this, t)"
    by (rule log_constructor_serves [OF assms(2,1)])
  then show ?thesis using crs_step.construct [OF ctor_log] by blast
qed

section \<open>References\<close>

text \<open>
  What a service itself holds of an external service: the pointers of its own context.
\<close>

definition service_refs :: "svc \<Rightarrow> 'x mem_scheme \<Rightarrow> simcrs_service \<Rightarrow> nat" where
  "service_refs x m this = (case simcrsServiceContext this of None \<Rightarrow> 0
     | Some a \<Rightarrow> (case contexts m a of None \<Rightarrow> 0 | Some c \<Rightarrow> context_refs x c))"

lemma held_refs_live:
  assumes serve: "all_serve (vs, s)" and live: "only_live_refs (vs, s)"
  shows "held_refs x s = sum_list (map (service_refs x s) vs)"
proof -
  let ?at = "\<lambda>this. the (simcrsServiceContext this)"
  have ok: "mem_ok s" using serve by simp
  have fin: "finite (dom (contexts s))" by (rule finite_contexts [OF ok])
  have at: "simcrsServiceContext this = Some (?at this) \<and>
      (\<exists>c. contexts s (?at this) = Some c \<and> service_refs x s this = context_refs x c)"
    if "this \<in> set vs" for this
    using serve that by (auto simp: serves_def service_refs_def)
  have sub: "?at ` set vs \<subseteq> dom (contexts s)" using at by blast
  have inj: "inj_on ?at (set vs)"
    using at by (intro inj_onI service_eqI) metis
  have rest: "context_refs x (the (contexts s a)) = 0" if "a \<in> dom (contexts s) - ?at ` set vs" for a
    using live that by (force simp: image_iff)
  have "held_refs x s = (\<Sum>a \<in> ?at ` set vs. context_refs x (the (contexts s a)))"
    unfolding held_refs_def by (rule sum.mono_neutral_right [OF fin sub]) (use rest in blast)
  also have "\<dots> = (\<Sum>this \<in> set vs. service_refs x s this)"
    by (subst sum.reindex [OF inj]) (use at in \<open>force intro!: sum.cong\<close>)
  also have "\<dots> = sum_list (map (service_refs x s) vs)"
    using serve by (simp add: sum_list_distinct_conv_sum_set)
  finally show ?thesis .
qed

lemma held_refs_at:
  assumes "mem_ok s" "contexts s a = Some c"
  shows "context_refs x c \<le> held_refs x s"
  using held_refs_split [OF assms, of x] by simp

section \<open>Properties\<close>

text \<open>
  C24. The memory of a process is bounded by its history. After any history, the number of
  contexts in memory lies between the number of constructions and the number of attempted
  constructions since the last clean-up, and the services that are alive are those constructed
  and not destroyed since then. Destroying services does not lower the number of contexts.
\<close>

theorem contexts_bounded_by_history:
  assumes "trace A evs ([], fresh_state w) (vs, s)"
  shows "nb_events Construct (since_clean evs) \<le> nb_contexts s \<and>
    nb_contexts s \<le> nb_events Construct (since_clean evs) + nb_events Construct_Fails (since_clean evs) \<and>
    length vs + nb_events Destroy (since_clean evs) = nb_events Construct (since_clean evs)"
  using trace_counts [OF assms] by simp

lemma sample_trace:
  "trace (echo_apis (\<lambda>_. True) []) [Construct, Destroy] ([], fresh_state ([], 0))
     ([], (sample_state True)\<lparr>contexts := [2 \<mapsto> emptied (sample_context True)]\<rparr>)"
proof -
  have "crs_step (echo_apis (\<lambda>_. True) []) Construct ([], fresh_state ([], 0))
      ([sample_service], sample_state True)"
    by (rule crs_step.construct [OF ctor_log sample_run(1)])
  from trace_append [OF trace_one [OF sample_destroy_step] trace_one [OF this]]
  show ?thesis by simp
qed

theorem contexts_bounded_by_history_witness:
  "nb_contexts ((sample_state True)\<lparr>contexts := [2 \<mapsto> emptied (sample_context True)]\<rparr>) = 1"
  using contexts_bounded_by_history [OF sample_trace] by (simp add: since_clean_def nb_events_def)



text \<open>
  Every reference is accounted for: as long as no constructor has failed, the number of
  references that contexts hold on an external service is, in every reachable state, exactly
  the sum of those of the services that are alive, each counted with its own context.
\<close>

lemma references_accounted:
  assumes "reachable A P (vs, s)" and "\<not> P Construct_Fails"
  shows "held_refs x s = sum_list (map (service_refs x s) vs)"
  by (rule held_refs_live [OF reachable_all_serve [OF assms(1)] reachable_only_live [OF assms]])

text \<open>
  No handler of a live service can have been destroyed: in every reachable state, failed
  constructions included, each of the four services that the context of a live service points
  to is kept alive by a shared pointer, whatever has been constructed or destroyed around it.
\<close>

lemma live_handlers_are_referenced:
  assumes "reachable A P (vs, s)" and "this \<in> set vs"
  shows "\<exists>a c (h :: crew). simcrsServiceContext this = Some a \<and> contexts s a = Some c \<and>
    handlers c (ownsStdair h) (stdairH h) (airtspH h) (airinvH h) (simfqtH h) \<and>
    (\<forall>x \<in> {stdairH h, airtspH h, airinvH h, simfqtH h}. 0 < held_refs x s)"
proof -
  have ok: "mem_ok s" and "serves this s" using reachable_all_serve [OF assms(1)] assms(2) by auto
  then obtain a c where ac: "simcrsServiceContext this = Some a" "contexts s a = Some c"
    "context_complete c"
    unfolding serves_def by blast
  obtain h where h: "crew_of c = Some h" using crew_of_complete [OF ac(3)] by blast
  note hs = crew_of_handlers(1) [OF h]
  have "0 < context_refs x c" if "x \<in> {stdairH h, airtspH h, airinvH h, simfqtH h}" for x
    using hs that by (auto simp: handlers_def context_refs_alt)
  then have "\<forall>x \<in> {stdairH h, airtspH h, airinvH h, simfqtH h}. 0 < held_refs x s"
    using held_refs_at [OF ok ac(2)] by (meson less_le_trans)
  with ac hs show ?thesis by blast
qed

lemma live_handlers_are_referenced_witness:
  "0 < held_refs 3 (sample_state True)"
proof -
  obtain h :: crew where "handlers (sample_context True) (ownsStdair h) (stdairH h) (airtspH h) (airinvH h)
      (simfqtH h)" "0 < held_refs (airinvH h) (sample_state True)"
    using live_handlers_are_referenced [OF sample_reachable, of sample_service] by auto
  then show ?thesis by (auto simp: handlers_def sample_context_def)
qed

end
