(* ===== verification/CRS_Process.thy ===== *)
theory CRS_Process
  imports CRS_Traces
begin

text \<open>
  The process without its memory. The specification is a state machine over the crews of the
  services that are alive, the list of the pointers that failed constructors have left behind,
  and the external components: no contexts, no factories, no pools. Every run of the process
  is a run of the specification and every run of the specification is one of the process.
\<close>

section \<open>Pointers\<close>

text \<open>The objects that a list of shared pointers refers to; giving them up in order.\<close>

definition given :: "sptr list \<Rightarrow> svc list" where
  "given ps = concat (map (\<lambda>p. case p of None \<Rightarrow> [] | Some x \<Rightarrow> [x]) ps)"

definition give_back :: "'w apis \<Rightarrow> svc list \<Rightarrow> 'w \<Rightarrow> 'w" where
  "give_back A xs w = fold (sptr_release (sharedA A)) xs w"

lemma given_simps [simp]:
  "given [] = []" "given (None # ps) = given ps" "given (Some x # ps) = x # given ps"
  "given (ps @ qs) = given ps @ given qs"
  by (simp_all add: given_def)

lemma drop_slots_given: "drop_slots A ps w = give_back A (given ps) w"
proof (induction ps arbitrary: w)
  case (Cons p ps)
  then show ?case by (cases p) (simp_all add: drop_slots_def give_back_def)
qed (simp add: give_back_def)

lemma given_pool: "given (pool_slots B ps)
    = concat (map (\<lambda>p. given (rev (context_slots (the (B (the p)))))) ps)"
  by (induction ps) (simp_all add: pool_slots_def)

section \<open>What constructing a service asks of the other components\<close>

text \<open>
  The service takes a share in \<open>x\<close>: the pointer goes through \<open>n\<close> functions by value before it
  is stored, so that \<open>Suc n\<close> copies are made and \<open>n\<close> of them given up.
\<close>

definition spec_share :: "'w apis \<Rightarrow> nat \<Rightarrow> svc \<Rightarrow> 'w \<Rightarrow> 'w" where
  "spec_share A n x w = (sptr_release (sharedA A) x ^^ n) ((sptr_copy (sharedA A) x ^^ Suc n) w)"

text \<open>
  A handler is made, with a pointer to StdAir in hand; the service takes a share in it, and the
  local pointers are given up. When the constructor of the handler throws, the pointers \<open>held\<close>
  by then stay behind.
\<close>

definition spec_hire ::
  "'w apis \<Rightarrow> svc \<Rightarrow> svc list \<Rightarrow> ('w, svc) prog \<Rightarrow> (svc list \<times> 'w, svc) prog" where
  "spec_hire A st held mk = (\<lambda>(ls, w). case mk (sptr_copy (sharedA A) st w) of
      (Ret x, v) \<Rightarrow> (Ret x, ls, sptr_release (sharedA A) st
         (sptr_release (sharedA A) x (spec_share A 1 x v)))
    | (Throw e, v) \<Rightarrow> (Throw e, ls @ held, sptr_release (sharedA A) st v)
    | (Halt b, v) \<Rightarrow> (Halt b, ls, v))"

text \<open>
  The inventory: AirInv makes its own event queue, or is given the one that is shared.
\<close>

definition spec_inventory :: "'w apis \<Rightarrow> svc \<Rightarrow> bool \<Rightarrow> sptr \<Rightarrow> ('w, svc) prog" where
  "spec_inventory A st owned q = (if owned then airinv_make (airinvA A) (Some st)
     else held_sptr A q (seqM (assertM (q \<noteq> None))
       (airinv_make_sevmgr (airinvA A) (Some st) q)))"

definition spec_crew ::
  "'w apis \<Rightarrow> bool \<Rightarrow> svc \<Rightarrow> sptr \<Rightarrow> ('w, svc) prog \<Rightarrow> CRSCode_T
   \<Rightarrow> (svc list \<times> 'w, crew) prog" where
  "spec_crew A own st q inventory crs =
     bindM (spec_hire A st (given [q, Some st]) (simfqt_make (simfqtA A) (Some st))) (\<lambda>fq.
     bindM (spec_hire A st (given [Some fq, q, Some st]) (airtsp_make (airtspA A) (Some st))) (\<lambda>ts.
     bindM (spec_hire A st (given [Some fq, Some ts, q, Some st]) inventory) (\<lambda>ai.
     ret \<lparr>ownsStdair = own, stdairH = st, airtspH = ts, airinvH = ai, simfqtH = fq,
          codeH = crs, sevmgrH = q\<rparr>)))"

text \<open>
  The service takes a share in the services that it is given. The constructors that make the
  StdAir service hold a local pointer to it until they are left; the one on shared services
  holds its parameters.
\<close>

definition spec_attach :: "'w apis \<Rightarrow> svc list \<Rightarrow> (svc list \<times> 'w, unit) prog" where
  "spec_attach A xs = modS (\<lambda>(ls, w). (ls, fold (spec_share A 2) xs w))"

definition spec_local ::
  "'w apis \<Rightarrow> sptr \<Rightarrow> (svc list \<times> 'w, 'a) prog \<Rightarrow> (svc list \<times> 'w, 'a) prog" where
  "spec_local A p = finally_do (\<lambda>(ls, w). (ls, give_sptr A p w))"

definition spec_param ::
  "'w apis \<Rightarrow> sptr \<Rightarrow> (svc list \<times> 'w, 'a) prog \<Rightarrow> (svc list \<times> 'w, 'a) prog" where
  "spec_param A p m = seqM (modS (\<lambda>(ls, w). (ls, take_sptr A p w))) (spec_local A p m)"

definition spec_own :: "'w apis \<Rightarrow> CRSCode_T \<Rightarrow> svc \<Rightarrow> (svc list \<times> 'w, crew) prog" where
  "spec_own A crs st = spec_local A (Some st)
     (seqM (spec_attach A [st]) (spec_crew A True st None (spec_inventory A st True None) crs))"

definition spec_construct ::
  "'w apis \<Rightarrow> log_params \<Rightarrow> CRSCode_T \<Rightarrow> (svc list \<times> 'w, crew) prog" where
  "spec_construct A lp crs =
     bindM (beside_ref (stdair_make (stdairA A) lp)) (spec_own A crs)"

definition spec_construct_db ::
  "'w apis \<Rightarrow> log_params \<Rightarrow> db_params \<Rightarrow> CRSCode_T \<Rightarrow> (svc list \<times> 'w, crew) prog" where
  "spec_construct_db A lp dp crs =
     bindM (beside_ref (stdair_make_db (stdairA A) lp dp)) (spec_own A crs)"

definition spec_construct_shared ::
  "'w apis \<Rightarrow> svc \<Rightarrow> sptr \<Rightarrow> CRSCode_T \<Rightarrow> (svc list \<times> 'w, crew) prog" where
  "spec_construct_shared A st q crs = spec_param A (Some st) (spec_param A q
     (seqM (spec_attach A (given [Some st, q]))
       (spec_crew A False st q (spec_inventory A st False q) crs)))"

section \<open>Constructors\<close>

text \<open>The crew of a service in a memory.\<close>

definition crew_at :: "'x mem_scheme \<Rightarrow> simcrs_service \<Rightarrow> crew option" where
  "crew_at m this = Option.bind (simcrsServiceContext this)
     (\<lambda>a. Option.bind (contexts m a) crew_of)"

lemma crew_at_iff: "crew_at m this = Some h \<longleftrightarrow> (\<exists>a c. simcrsServiceContext this = Some a \<and>
    contexts m a = Some c \<and> crew_of c = Some h)"
  by (auto simp: crew_at_def bind_eq_Some_conv)

text \<open>
  A constructor employs a crew: it ends as its specification does, with the same effect on the
  external components, and the service that it returns has the crew; when it throws, the
  context that it leaves in the pool, if any, holds the pointers that stay behind.
\<close>

definition left_by :: "'x mem_scheme \<Rightarrow> 'x mem_scheme \<Rightarrow> svc list" where
  "left_by s t =
     given (pool_slots (contexts t) (drop (length (context_pool s)) (context_pool t)))"

lemma left_by_world [simp]:
  "left_by (s\<lparr>world := w\<rparr>) t = left_by s t" "left_by s (t\<lparr>world := w\<rparr>) = left_by s t"
  by (simp_all add: left_by_def)

fun agrees :: "crew outcome \<Rightarrow> simcrs_service outcome \<Rightarrow> 'x mem_scheme \<Rightarrow> svc list \<Rightarrow> svc list
   \<Rightarrow> svc list \<Rightarrow> bool" where
  "agrees (Ret h) r t ls ls' xs \<longleftrightarrow>
     (\<exists>this. r = Ret this \<and> crew_at t this = Some h) \<and> ls' = ls"
| "agrees (Throw e) r t ls ls' xs \<longleftrightarrow> r = Throw e \<and> ls' = ls @ xs"
| "agrees (Halt b) r t ls ls' xs \<longleftrightarrow> r = Halt b"

definition employs ::
  "(('w, 'x) crs_state_scheme, simcrs_service) prog \<Rightarrow> (svc list \<times> 'w, crew) prog
   \<Rightarrow> ('w, 'x) crs_state_scheme \<Rightarrow> bool" where
  "employs M m s \<longleftrightarrow> (\<forall>ls r t q ls' v. M s = (r, t) \<longrightarrow> m (ls, world s) = (q, ls', v) \<longrightarrow>
     v = world t \<and> crs_state.more t = crs_state.more s \<and> agrees q r t ls ls' (left_by s t))"

lemma employsI:
  assumes "\<And>ls r t q ls' v. M s = (r, t) \<Longrightarrow> m (ls, world s) = (q, ls', v) \<Longrightarrow>
    v = world t \<and> crs_state.more t = crs_state.more s \<and> agrees q r t ls ls' (left_by s t)"
  shows "employs M m s"
  using assms unfolding employs_def by blast

lemma employs_ends:
  assumes "employs M m s" "M s = (r, t)" "m (ls, world s) = (q, ls', v)"
  shows "v = world t \<and> crs_state.more t = crs_state.more s \<and> agrees q r t ls ls' (left_by s t)"
  using assms unfolding employs_def by blast

lemma agrees_world [simp]: "agrees q r (t\<lparr>world := w\<rparr>) ls ls' xs = agrees q r t ls ls' xs"
  by (cases q) (simp_all add: crew_at_def)

lemma spec_share_simps:
  "pass_sptr A (Some x) (assign_sptr A None (Some x)) w = spec_share A 1 x w"
  "attached A (Some x) w = spec_share A 2 x w" "attached A None w = w"
  by (simp_all add: attached_def pass_sptr_def assign_sptr_def spec_share_def numeral_2_eq_2)

text \<open>Hiring at a new context is hiring a crew.\<close>

lemma hire_all_spec:
  assumes c: "stdairService c = Some st" "ownStdairService c = Some own"
      "airtspService c = None" "airinvService c = None" "simfqtService c = None"
    and run: "hire_all A (c, w) = (r, d, v)"
    and spec: "spec_crew A own st (sevmgrService c)
      (spec_inventory A st (ownSEVMGRService c) (sevmgrService c)) (CRSCode c) (ls, w) = (q, ls', v')"
  shows "v' = v \<and> (case q of
      Ret h \<Rightarrow> r = Ret () \<and> crew_of d = Some h \<and> ls' = ls
    | Throw e \<Rightarrow> r = Throw e \<and> ls' = ls @ given (rev (context_slots d))
    | Halt b \<Rightarrow> r = Halt b)"
proof -
  let ?inv = "spec_inventory A st (ownSEVMGRService c) (sevmgrService c)"
  let ?with = "sptr_copy (sharedA A) st"
  let ?given = "\<lambda>x w. ?with (sptr_release (sharedA A) st
    (sptr_release (sharedA A) x (spec_share A 1 x w)))"
  have took: "took_in A (Some st) None x w = sptr_release (sharedA A) st
      (sptr_release (sharedA A) x (spec_share A 1 x w))" for x w
    by (simp add: took_in_def spec_share_simps)
  have inv: "inventory_make A (c\<lparr>simfqtService := x, airtspService := y\<rparr>) = ?inv" for x y
    by (simp add: inventory_make_def spec_inventory_def c)
  obtain r1 w1 where 1: "simfqt_make (simfqtA A) (Some st) (?with w) = (r1, w1)" by fastforce
  show ?thesis
  proof (cases r1)
    case r1: (Ret fq)
    obtain r2 w2 where 2: "airtsp_make (airtspA A) (Some st) (?given fq w1) = (r2, w2)" by fastforce
    show ?thesis
    proof (cases r2)
      case r2: (Ret ts)
      obtain r3 w3 where 3: "?inv (?given ts w2) = (r3, w3)" by fastforce
      show ?thesis
        using run spec
        by (cases r3) (auto simp: hire_all_def spec_crew_def seqM_cases bindM_cases hire_def
            spec_hire_def took 1 2 3 r1 r2 c inv setter_defs crew_of_def context_slots_def
            simp del: One_nat_def)
    qed (use run spec in \<open>auto simp: hire_all_def spec_crew_def seqM_cases bindM_cases hire_def
        spec_hire_def took 1 2 r1 c setter_defs crew_of_def context_slots_def simp del: One_nat_def\<close>)
  qed (use run spec c in \<open>auto simp: hire_all_def spec_crew_def seqM_cases bindM_cases hire_def
      spec_hire_def took 1 setter_defs crew_of_def context_slots_def simp del: One_nat_def\<close>)
qed

lemma employs_tail:
  assumes ok: "mem_ok s" and att: "attaches f g attach"
    and c: "f (ServiceContext_make crs) = c"
      "stdairService c = Some st" "ownStdairService c = Some own" "CRSCode c = crs"
      "airtspService c = None" "airinvService c = None" "simfqtService c = None"
    and spec: "m = seqM (modS (\<lambda>(ls, w). (ls, g w)))
      (spec_crew A own st (sevmgrService c)
        (spec_inventory A st (ownSEVMGRService c) (sevmgrService c)) crs)"
  shows "employs (construct_tail A attach crs) m s"
proof (rule employsI)
  fix ls p t q ls' v
  assume run: "construct_tail A attach crs s = (p, t)" and m: "m (ls, world s) = (q, ls', v)"
  obtain a r d where t: "hire_all A (c, g (world s)) = (r, d, world t)"
    "p = map_outcome (\<lambda>_. \<lparr>simcrsServiceContext = Some a\<rparr>) r"
    "contexts t = (contexts s)(a \<mapsto> d)" "context_pool t = context_pool s @ [Some a]"
    "crs_state.more t = crs_state.more s"
    by (rule construct_tail_run [OF ok att run, unfolded c(1)])
  have "spec_crew A own st (sevmgrService c)
      (spec_inventory A st (ownSEVMGRService c) (sevmgrService c)) (CRSCode c) (ls, g (world s))
      = (q, ls', v)" using m by (simp add: spec c(4))
  from hire_all_spec [OF c(2,3,5-7) t(1) this]
  show "v = world t \<and> crs_state.more t = crs_state.more s \<and> agrees q p t ls ls' (left_by s t)"
    by (cases q) (auto simp: t crew_at_iff left_by_def pool_slots_def)
qed

lemma employs_with_sptr:
  assumes "employs M m s"
  shows "employs (with_sptr A p M) (spec_local A p m) s"
proof (rule employsI)
  fix ls r t q ls' v
  obtain y u where run: "M s = (y, u)" by fastforce
  obtain q' ls'' v' where spec: "m (ls, world s) = (q', ls'', v')" using prod.exhaust by metis
  assume "with_sptr A p M s = (r, t)" "spec_local A p m (ls, world s) = (q, ls', v)"
  with run spec employs_ends [OF assms run spec]
  show "v = world t \<and> crs_state.more t = crs_state.more s \<and> agrees q r t ls ls' (left_by s t)"
    by (cases q') (auto simp: with_sptr_def finally_world_def finally_do_def spec_local_def
        crew_at_def)
qed

lemma employs_with_copy:
  assumes "\<And>w. employs M m (s\<lparr>world := w\<rparr>)"
  shows "employs (with_copy A p M) (spec_param A p m) s"
proof (rule employsI)
  fix ls r t q ls' v
  let ?s = "s\<lparr>world := take_sptr A p (world s)\<rparr>"
  assume "with_copy A p M s = (r, t)" "spec_param A p m (ls, world s) = (q, ls', v)"
  then have "with_sptr A p M ?s = (r, t)" "spec_local A p m (ls, world ?s) = (q, ls', v)"
    by (simp_all add: with_copy_run spec_param_def)
  from employs_ends [OF employs_with_sptr [OF assms] this]
  show "v = world t \<and> crs_state.more t = crs_state.more s \<and> agrees q r t ls ls' (left_by s t)"
    by simp
qed

lemma employs_own:
  assumes "mem_ok s"
  shows "employs (with_sptr A (Some st)
      (construct_tail A (\<lambda>this. addStdAirService A this (Some st) True) crs)) (spec_own A crs st) s"
  unfolding spec_own_def
  by (rule employs_with_sptr, rule employs_tail [OF assms attaches_StdAir refl])
    (simp_all add: setter_defs spec_attach_def ServiceContext_make_def
      spec_share_simps(2) [abs_def])

lemma employs_after:
  fixes n :: "('w, svc) prog"
  assumes "\<And>x w. employs (M (Some x)) (m x) (s\<lparr>world := w\<rparr>)"
  shows "employs (bindM (bindM (on_world n) (\<lambda>x. ret (Some x))) M) (bindM (beside_ref n) m) s"
proof (rule employsI)
  fix ls r t q ls' v
  assume run: "bindM (bindM (on_world n) (\<lambda>x. ret (Some x))) M s = (r, t)"
    "bindM (beside_ref n) m (ls, world s) = (q, ls', v)"
  obtain p w where n: "n (world s) = (p, w)" by fastforce
  show "v = world t \<and> crs_state.more t = crs_state.more s \<and> agrees q r t ls ls' (left_by s t)"
  proof (cases p)
    case (Ret x)
    with n run have "M (Some x) (s\<lparr>world := w\<rparr>) = (r, t)" "m x (ls, world (s\<lparr>world := w\<rparr>)) = (q, ls', v)"
      by (simp_all add: bindM_cases on_world_def beside_ref_def)
    from employs_ends [OF assms this] show ?thesis by simp
  qed (use n run in \<open>auto simp: bindM_cases on_world_def beside_ref_def left_by_def\<close>)
qed

lemma employs_log:
  assumes "mem_ok s"
  shows "employs (SIMCRS_Service_log A lp crs) (spec_construct A lp crs) s"
  unfolding log_tail initStdAirService_def spec_construct_def
  by (rule employs_after) (simp add: employs_own assms)

lemma employs_db:
  assumes "mem_ok s"
  shows "employs (SIMCRS_Service_db A lp dp crs) (spec_construct_db A lp dp crs) s"
  unfolding db_tail initStdAirService_db_def spec_construct_db_def
  by (rule employs_after) (simp add: employs_own assms)

lemma employs_shared:
  assumes "mem_ok s"
  shows "employs (SIMCRS_Service_shared A (Some st) q crs) (spec_construct_shared A st q crs) s"
  unfolding shared_tail spec_construct_shared_def
proof (intro employs_with_copy employs_tail [OF _ attaches_both refl])
  show "seqM (spec_attach A (given [Some st, q]))
      (spec_crew A False st q (spec_inventory A st False q) crs)
    = seqM (modS (\<lambda>(ls, w). (ls, (attached A q \<circ> attached A (Some st)) w)))
      (spec_crew A False st
        (sevmgrService ((setSEVMGR_Service q False \<circ> setSTDAIR_Service (Some st) False)
          (ServiceContext_make crs)))
        (spec_inventory A st
          (ownSEVMGRService ((setSEVMGR_Service q False \<circ> setSTDAIR_Service (Some st) False)
            (ServiceContext_make crs)))
          (sevmgrService ((setSEVMGR_Service q False \<circ> setSTDAIR_Service (Some st) False)
            (ServiceContext_make crs)))) crs)"
    by (cases q) (simp_all add: spec_attach_def spec_share_simps setter_defs)
qed (simp_all add: assms setter_defs ServiceContext_make_def)

section \<open>The specified process\<close>

text \<open>The constructors that a program may call, with what each asks for.\<close>

inductive spec_constructor :: "'w apis \<Rightarrow> (svc list \<times> 'w, crew) prog \<Rightarrow> bool" for A where
  spec_log: "spec_constructor A (spec_construct A lp crs)"
| spec_db: "spec_constructor A (spec_construct_db A lp dp crs)"
| spec_shared: "spec_constructor A (spec_construct_shared A st q crs)"

text \<open>What a service gives back when it is destroyed, in the order of \<open>reset()\<close>.\<close>

definition crew_pointers :: "crew \<Rightarrow> svc list" where
  "crew_pointers h = given [Some (stdairH h), Some (simfqtH h), Some (airtspH h),
     Some (airinvH h), sevmgrH h]"

text \<open>
  The state is the crews of the live services, the latest first, the pointers that failed
  constructors have left behind, and the external components. A destructor dismisses one
  crew; a clean-up needs that no service is alive, and gives back what was left behind.
\<close>

type_synonym 'w specified = "crew list \<times> svc list \<times> 'w"

inductive spec_step :: "'w apis \<Rightarrow> event \<Rightarrow> 'w specified \<Rightarrow> 'w specified \<Rightarrow> bool" for A where
  spec_new: "spec_constructor A m \<Longrightarrow> m (ls, w) = (Ret h, ls', v) \<Longrightarrow>
    spec_step A Construct (hs, ls, w) (h # hs, ls', v)"
| spec_fails: "spec_constructor A m \<Longrightarrow> m (ls, w) = (Throw e, ls', v) \<Longrightarrow>
    spec_step A Construct_Fails (hs, ls, w) (hs, ls', v)"
| spec_called: "h \<in> set hs \<Longrightarrow> spec_call A h k w = (r, v) \<Longrightarrow> \<not> is_halt r \<Longrightarrow>
    spec_step A (Call k r) (hs, ls, w) (hs, ls, v)"
| spec_gone: "spec_step A Destroy (as @ h # bs, ls, w)
    (as @ bs, ls, give_back A (crew_pointers h) w)"
| spec_clean: "spec_step A Clean ([], ls, w) ([], [], give_back A ls w)"

inductive_cases spec_newE: "spec_step A Construct u b"
inductive_cases spec_failsE: "spec_step A Construct_Fails u b"
inductive_cases spec_calledE: "spec_step A (Call k r) u b"
inductive_cases spec_goneE: "spec_step A Destroy u b"
inductive_cases spec_cleanE: "spec_step A Clean u b"

text \<open>The pointers in the contexts of a pool that belong to none of the services \<open>vs\<close>.\<close>

definition leaked :: "simcrs_service list \<Rightarrow> 'x mem_scheme \<Rightarrow> svc list" where
  "leaked vs m = concat (map (\<lambda>p. if p \<in> simcrsServiceContext ` set vs then []
     else given (rev (context_slots (the (contexts m (the p)))))) (context_pool m))"

fun staff :: "'w system \<Rightarrow> 'w specified" where
  "staff (vs, s) = (map (\<lambda>this. the (crew_at s this)) vs, leaked vs s, world s)"

lemma constructor_employs:
  assumes "constructor A M"
  shows "\<exists>m. spec_constructor A m \<and> (\<forall>s. mem_ok s \<longrightarrow> employs M m s)"
  using assms
proof cases
  case (ctor_shared p q crs)
  then show ?thesis using spec_shared employs_shared by (cases p) blast+
qed (use spec_log employs_log spec_db employs_db in blast)+

lemma spec_constructor_met:
  assumes "spec_constructor A m"
  shows "\<exists>M. constructor A M \<and> (\<forall>s. mem_ok s \<longrightarrow> employs M m s)"
  using assms
proof cases
  case (spec_shared st q crs)
  have "constructor A (SIMCRS_Service_shared A (Some st) q crs)" by (rule ctor_shared) simp
  with spec_shared employs_shared show ?thesis by blast
qed (use ctor_log employs_log ctor_db employs_db in blast)+

lemma crew_at_serves: "serves this s \<Longrightarrow> \<exists>h. crew_at s this = Some h"
  unfolding serves_def crew_at_iff using crew_of_complete by blast

lemma crew_at_same: "contexts t = contexts s \<Longrightarrow> crew_at t = crew_at s"
  by (simp add: crew_at_def fun_eq_iff)

lemma crew_at_world [simp]: "crew_at (s\<lparr>world := w\<rparr>) = crew_at s"
  by (rule crew_at_same) simp

lemma crew_at_other:
  "contexts t = (contexts s)(a := x) \<Longrightarrow> simcrsServiceContext this \<noteq> Some a \<Longrightarrow>
    crew_at t this = crew_at s this"
  by (cases "simcrsServiceContext this") (simp_all add: crew_at_def)

lemma employsD:
  assumes "employs M m s"
  shows "M s = (Ret this, t) \<Longrightarrow> \<exists>h. m (ls, world s) = (Ret h, ls, world t) \<and>
      crew_at t this = Some h"
    "M s = (Throw e, t) \<Longrightarrow> m (ls, world s) = (Throw e, ls @ left_by s t, world t)"
    "m (ls, world s) = (Ret h, ls', v) \<Longrightarrow>
      \<exists>this t. M s = (Ret this, t) \<and> crew_at t this = Some h \<and> world t = v \<and> ls' = ls"
    "m (ls, world s) = (Throw e, ls', v) \<Longrightarrow>
      \<exists>t. M s = (Throw e, t) \<and> world t = v \<and> ls' = ls @ left_by s t"
proof -
  obtain r u where run: "M s = (r, u)" by fastforce
  obtain q l v' where spec: "m (ls, world s) = (q, l, v')" using prod.exhaust by metis
  note ends = employs_ends [OF assms run spec]
  show "M s = (Ret this, t) \<Longrightarrow> \<exists>h. m (ls, world s) = (Ret h, ls, world t) \<and>
      crew_at t this = Some h"
    "M s = (Throw e, t) \<Longrightarrow> m (ls, world s) = (Throw e, ls @ left_by s t, world t)"
    "m (ls, world s) = (Ret h, ls', v) \<Longrightarrow>
      \<exists>this t. M s = (Ret this, t) \<and> crew_at t this = Some h \<and> world t = v \<and> ls' = ls"
    "m (ls, world s) = (Throw e, ls', v) \<Longrightarrow>
      \<exists>t. M s = (Throw e, t) \<and> world t = v \<and> ls' = ls @ left_by s t"
    using ends run spec by (cases q; simp)+
qed

lemma call_at:
  assumes "crew_at s this = Some h"
  shows "invoke A k this s = on_world (spec_call A h k) s"
  using assms specified_methods.op_spec unfolding crew_at_iff by blast

section \<open>The pool\<close>

lemma context_pool_live:
  assumes "mem_ok s" "p \<in> set (context_pool s)"
  obtains a c where "p = Some a" "contexts s a = Some c"
proof -
  obtain f ps where f: "ctxFactoryInstance s = Some f" "serviceFactories s f = Some ps"
    "p \<in> set ps"
    using assms(2) unfolding context_pool_def
    by (cases "ctxFactoryInstance s"; cases "serviceFactories s (the (ctxFactoryInstance s))") auto
  have own: "pools_own (serviceFactories s) (contexts s)"
    by (rule service_layer_okD(1) [OF mem_okD(1) [OF assms(1)]])
  from pools_own_good [OF own f(2)] f(3) that show thesis by (auto simp: good_pool_def)
qed

lemma leaked_same: "contexts t = contexts s \<Longrightarrow> context_pool t = context_pool s \<Longrightarrow>
    leaked vs t = leaked vs s"
  by (simp add: leaked_def cong: if_cong)

lemma leaked_world [simp]: "leaked vs (s\<lparr>world := w\<rparr>) = leaked vs s"
  by (rule leaked_same) simp_all

lemma leaked_new:
  assumes "mem_ok s" "contexts s a = None" "contexts t = (contexts s)(a \<mapsto> c)"
    "context_pool t = context_pool s @ [Some a]"
  shows "leaked vs t = leaked vs s @ (if Some a \<in> simcrsServiceContext ` set vs then []
    else given (rev (context_slots c)))"
proof -
  have "the (contexts t (the p)) = the (contexts s (the p))" if "p \<in> set (context_pool s)" for p
    by (rule context_pool_live [OF assms(1) that]) (use assms(2,3) in auto)
  then show ?thesis
    by (simp add: leaked_def assms(3,4) cong: map_cong if_cong)
qed

lemma leaked_newer:
  assumes "mem_ok s" "simcrsServiceContext this = Some a" "contexts s a = None"
  shows "leaked (this # vs) s = leaked vs s"
proof -
  have "p \<noteq> Some a" if "p \<in> set (context_pool s)" for p
    by (rule context_pool_live [OF assms(1) that]) (use assms(3) in auto)
  then show ?thesis by (simp add: leaked_def assms(2) cong: map_cong)
qed

text \<open>What a failed constructor leaves behind.\<close>

lemma leaked_failed:
  assumes "mem_ok s" "may_add_context s t"
    and "\<And>a. contexts s a = None \<Longrightarrow> Some a \<notin> simcrsServiceContext ` set vs"
  shows "leaked vs t = leaked vs s @ left_by s t"
  using assms(2)
proof (rule may_addE)
  assume "contexts t = contexts s" "context_pool t = context_pool s"
  then show ?thesis by (simp add: leaked_def left_by_def cong: if_cong)
next
  fix a c
  assume a: "contexts s a = None" "contexts t = (contexts s)(a \<mapsto> c)"
    "context_pool t = context_pool s @ [Some a]"
  from leaked_new [OF assms(1) this] assms(3) [OF a(1)] show ?thesis
    by (simp add: left_by_def a(2,3) pool_slots_def)
qed

lemma leaked_destroyed:
  assumes "mem_ok s" "simcrsServiceContext this = Some a" "contexts s a = Some c"
    "distinct vs" "this \<in> set vs"
  shows "leaked (remove1 this vs) (destroyed A a c s) = leaked vs s"
proof -
  have "p \<in> simcrsServiceContext ` set (remove1 this vs) \<longleftrightarrow>
      p \<noteq> Some a \<and> p \<in> simcrsServiceContext ` set vs" for p
    using assms(2,4,5) service_eqI [of _ this] by (auto simp: image_iff)
  note live = this
  have a: "Some a \<in> simcrsServiceContext ` set vs" using assms(2,5) by (metis image_eqI)
  have "(if p \<in> simcrsServiceContext ` set (remove1 this vs) then []
      else given (rev (context_slots (the (contexts (destroyed A a c s) (the p))))))
    = (if p \<in> simcrsServiceContext ` set vs then []
      else given (rev (context_slots (the (contexts s (the p))))))"
    if p: "p \<in> set (context_pool s)" for p
  proof (cases "p = Some a")
    case True
    with live a show ?thesis by simp
  next
    case False
    then have "the p \<noteq> a" by (metis context_pool_live [OF assms(1) p] option.sel)
    with False live show ?thesis by simp
  qed
  then show ?thesis unfolding leaked_def by (simp cong: map_cong)
qed

text \<open>A constructor leaves the crews of the services that are alive.\<close>

lemma live_not_new:
  assumes "all_serve (vs, s)" "contexts s a = None"
  shows "Some a \<notin> simcrsServiceContext ` set vs"
  using assms by (force simp: serves_def)

lemma constructor_staff:
  assumes "may_add_context s t" "all_serve (vs, s)"
  shows "\<forall>this \<in> set vs. crew_at t this = crew_at s this"
proof
  fix this assume live: "this \<in> set vs"
  show "crew_at t this = crew_at s this"
    using assms(1)
  proof (rule may_addE)
    assume "contexts t = contexts s"
    then show ?thesis by (rule fun_cong [OF crew_at_same])
  next
    fix a c
    assume a: "contexts s a = None" "contexts t = (contexts s)(a \<mapsto> c)"
    have "simcrsServiceContext this \<noteq> Some a"
      using live_not_new [OF assms(2) a(1)] live by (metis image_eqI)
    with a(2) show ?thesis by (rule crew_at_other)
  qed
qed

lemma constructed_staff:
  assumes M: "constructor A M" and serve: "all_serve (vs, s)" and run: "M s = (Ret this, t)"
    and h: "crew_at t this = Some h"
  shows "staff (this # vs, t) = (h # map (\<lambda>this. the (crew_at s this)) vs, leaked vs s, world t)"
proof -
  have ok: "mem_ok s" using serve by simp
  obtain a c where a: "simcrsServiceContext this = Some a" "contexts s a = None"
    "contexts t = (contexts s)(a \<mapsto> c)" "context_pool t = context_pool s @ [Some a]"
    by (rule constructor_Ret [OF M ok run])
  have "leaked (this # vs) t = leaked (this # vs) s"
    using leaked_new [OF ok a(2-4), of "this # vs"] a(1) by simp
  with leaked_newer [OF ok a(1,2), of vs]
    constructor_staff [OF conjunct2 [OF constructor_any [OF M ok run]] serve] h
  show ?thesis by (simp cong: map_cong)
qed

lemma failed_staff:
  assumes M: "constructor A M" and serve: "all_serve (vs, s)" and run: "M s = (Throw e, t)"
  shows "staff (vs, t) = (map (\<lambda>this. the (crew_at s this)) vs, leaked vs s @ left_by s t, world t)"
proof -
  have ok: "mem_ok s" using serve by simp
  note add = conjunct2 [OF constructor_any [OF M ok run]]
  from leaked_failed [OF ok add live_not_new [OF serve]] constructor_staff [OF add serve]
  show ?thesis by (simp cong: map_cong)
qed

text \<open>A destructor dismisses the crew of the service and leaves the others.\<close>

lemma reset_crew: "crew_of c = Some h \<Longrightarrow> given (reset_order c) = crew_pointers h"
  by (auto simp: crew_of_def reset_order_def crew_pointers_def split: option.splits)

lemma destroy_staff:
  assumes "all_serve (us @ this # ws, s)" "SIMCRS_Service_destroy A this s = (Ret (), t)"
  shows "staff (remove1 this (us @ this # ws), t)
    = (map (\<lambda>this. the (crew_at s this)) (us @ ws), leaked (us @ this # ws) s,
       give_back A (crew_pointers (the (crew_at s this))) (world s))"
proof -
  have ok: "mem_ok s" "serves this s" and dist: "distinct (us @ this # ws)"
    using assms(1) by auto
  obtain a c where ac: "simcrsServiceContext this = Some a" "contexts s a = Some c"
    "contexts t = (contexts s)(a \<mapsto> emptied c)" "t = destroyed A a c s"
    by (rule destroy_any [OF ok assms(2)])
  obtain h where h: "crew_at s this = Some h" using crew_at_serves [OF ok(2)] by blast
  then have "given (reset_order c) = crew_pointers h"
    using ac(1,2) reset_crew by (auto simp: crew_at_iff)
  moreover have "crew_at t that = crew_at s that" if "that \<in> set (us @ ws)" for that
  proof (rule crew_at_other [OF ac(3)])
    have "that \<noteq> this" using that dist by auto
    then show "simcrsServiceContext that \<noteq> Some a" using ac(1) service_eqI [of that this] by auto
  qed
  moreover have "remove1 this (us @ this # ws) = us @ ws"
    using dist by (simp add: remove1_append)
  moreover have "leaked (us @ ws) t = leaked (us @ this # ws) s"
    using leaked_destroyed [OF ok(1) ac(1,2) dist, of A] dist
    by (simp add: ac(4) remove1_append)
  ultimately show ?thesis by (simp add: ac(4) h drop_slots_given cong: map_cong)
qed

lemma clean_staff:
  "mem_ok s \<Longrightarrow> staff ([], cleaned A s) = ([], [], give_back A (leaked [] s) (world s))"
  by (simp add: leaked_def cleaned_def context_pool_def drop_slots_given all_slots_def given_pool)

section \<open>Both directions\<close>

lemma step_staff:
  assumes "all_serve u" "crs_step A ev u v"
  shows "spec_step A ev (staff u) (staff v)"
  using assms(2)
proof cases
  case (construct M s this t vs)
  then have serve: "all_serve (vs, s)" and ok: "mem_ok s" using assms(1) by simp_all
  obtain m where m: "spec_constructor A m" "employs M m s"
    using constructor_employs [OF construct(4)] ok by blast
  obtain h where h: "m (leaked vs s, world s) = (Ret h, leaked vs s, world t)"
    "crew_at t this = Some h"
    using employsD(1) [OF m(2) construct(5)] by blast
  have u: "staff u = (map (\<lambda>this. the (crew_at s this)) vs, leaked vs s, world s)"
    using construct by simp
  show ?thesis
    unfolding construct(1,3) u constructed_staff [OF construct(4) serve construct(5) h(2)]
    by (rule spec_new [OF m(1) h(1)])
next
  case (construct_fails M s e t vs)
  then have serve: "all_serve (vs, s)" and ok: "mem_ok s" using assms(1) by simp_all
  obtain m where m: "spec_constructor A m" "employs M m s"
    using constructor_employs [OF construct_fails(4)] ok by blast
  have u: "staff u = (map (\<lambda>this. the (crew_at s this)) vs, leaked vs s, world s)"
    using construct_fails by simp
  show ?thesis
    unfolding construct_fails(1,3) u failed_staff [OF construct_fails(4) serve construct_fails(5)]
    by (rule spec_fails [OF m(1) employsD(2) [OF m(2) construct_fails(5)]])
next
  case (call this vs k s r t)
  then obtain h where h: "crew_at s this = Some h" using crew_at_serves assms(1) by fastforce
  obtain w where w: "spec_call A h k (world s) = (r, w)" "t = s\<lparr>world := w\<rparr>"
    using call_at [OF h] call(5) by (auto simp: on_world_def split: prod.splits)
  have "h \<in> set (map (\<lambda>this. the (crew_at s this)) vs)"
    using call(4) h by (auto intro: rev_image_eqI)
  from spec_called [OF this w(1) call(6)] call w(2) show ?thesis by simp
next
  case (destroy this vs s t)
  obtain us ws where vs: "vs = us @ this # ws" using destroy(4) split_list by metis
  have "staff v = (map (\<lambda>this. the (crew_at s this)) us @ map (\<lambda>this. the (crew_at s this)) ws,
      leaked vs s, give_back A (crew_pointers (the (crew_at s this))) (world s))"
    using destroy_staff [of us this ws s A t] destroy assms(1) vs by simp
  moreover have "staff u = (map (\<lambda>this. the (crew_at s this)) us @ the (crew_at s this)
      # map (\<lambda>this. the (crew_at s this)) ws, leaked vs s, world s)"
    using destroy vs by simp
  ultimately show ?thesis using destroy(1) spec_gone by simp
next
  case (clean s t)
  then have "mem_ok s" using assms(1) by simp
  with clean cleanFactory_run [OF this, of A] clean_staff [OF this, of A] spec_clean
  show ?thesis by fastforce
qed

lemma staff_step:
  assumes "all_serve u" "spec_step A ev (staff u) b"
  shows "\<exists>v. crs_step A ev u v \<and> staff v = b"
proof -
  obtain vs s where u: "u = (vs, s)" by (cases u)
  have serve: "all_serve (vs, s)" and ok: "mem_ok s" using assms(1) u by simp_all
  from assms(2) show ?thesis
  proof cases
    case (spec_new m ls w h ls' v hs)
    obtain M where M: "constructor A M" "employs M m s"
      using spec_constructor_met [OF spec_new(4)] ok by blast
    have "m (leaked vs s, world s) = (Ret h, ls', v)" using spec_new u by simp
    from employsD(3) [OF M(2) this] obtain this t
      where run: "M s = (Ret this, t)" "crew_at t this = Some h" "world t = v" "ls' = leaked vs s"
      by blast
    have "staff (this # vs, t) = b"
      unfolding constructed_staff [OF M(1) serve run(1,2)] using spec_new u run(3,4) by simp
    with crs_step.construct [OF M(1) run(1)] spec_new(1) u show ?thesis by blast
  next
    case (spec_fails m ls w e ls' v hs)
    obtain M where M: "constructor A M" "employs M m s"
      using spec_constructor_met [OF spec_fails(4)] ok by blast
    have "m (leaked vs s, world s) = (Throw e, ls', v)" using spec_fails u by simp
    from employsD(4) [OF M(2) this] obtain t
      where run: "M s = (Throw e, t)" "world t = v" "ls' = leaked vs s @ left_by s t"
      by blast
    have "staff (vs, t) = b"
      unfolding failed_staff [OF M(1) serve run(1)] using spec_fails u run(2,3) by simp
    with crs_step.construct_fails [OF M(1) run(1)] spec_fails(1) u show ?thesis by blast
  next
    case (spec_called h hs k w r v ls)
    then obtain that where that: "that \<in> set vs" "h = the (crew_at s that)" using u by auto
    then have h: "crew_at s that = Some h" using crew_at_serves serve by fastforce
    have "invoke A k that s = (r, s\<lparr>world := v\<rparr>)"
      using call_at [OF h] spec_called u by (simp add: on_world_def)
    from crs_step.call [OF that(1) this spec_called(6)] spec_called u show ?thesis
      by (intro exI [of _ "(vs, s\<lparr>world := v\<rparr>)"]) simp
  next
    case (spec_gone as h bs ls w)
    then obtain us this ws where vs: "vs = us @ this # ws"
      "as = map (\<lambda>this. the (crew_at s this)) us" "h = the (crew_at s this)"
      "bs = map (\<lambda>this. the (crew_at s this)) ws"
      using u by (auto simp: map_eq_append_conv)
    then have "serves this s" using serve by simp
    then obtain a c where "simcrsServiceContext this = Some a" "contexts s a = Some c"
      unfolding serves_def by blast
    from destroy_run [OF this, of A] obtain t where
      t: "SIMCRS_Service_destroy A this s = (Ret (), t)" by blast
    have "this \<in> set vs" using vs(1) by simp
    from crs_step.destroy [OF this t] have "crs_step A Destroy u (remove1 this vs, t)"
      by (simp add: u)
    moreover have "staff (remove1 this vs, t) = b"
      using destroy_staff [OF serve [unfolded vs(1)] t] spec_gone u vs by (simp del: remove1_append)
    ultimately show ?thesis using spec_gone(1) by blast
  next
    case (spec_clean ls w)
    then have vs: "vs = []" "leaked [] s = ls" "world s = w" using u by auto
    from crs_step.clean [OF cleanFactory_run [OF ok, of A]] clean_staff [OF ok, of A] vs
      spec_clean u
    show ?thesis by auto
  qed
qed

interpretation process: bisimulation "crs_step A" "spec_step A" all_serve staff for A
  by unfold_locales (blast intro: step_all_serve step_staff staff_step)+

text \<open>From the start of a process.\<close>

lemma fresh_runs:
  "(\<exists>v. trace A evs ([], fresh_state w) v \<and> staff v = b) \<longleftrightarrow> runs (spec_step A) evs ([], [], w) b"
  using process.same_runs [OF fresh_all_serve]
  by (simp add: fresh_state_def leaked_def context_pool_def)

section \<open>Properties\<close>

text \<open>
  C3. The process is its specification: a history of constructions, failed constructions,
  calls, destructions and clean-ups leads from the start of a process to services with these
  crews, to these pointers left behind and to this state of the external components exactly
  when the state machine without contexts, factories and pools can do it. In particular each
  shared pointer is given back when and in the order that the state machine says; whatever
  else SimCRS keeps in memory, no sequence of public operations can tell.
\<close>

theorem process_equals_spec:
  "(\<exists>v. trace A evs ([], fresh_state w) v \<and> staff v = b) \<longleftrightarrow> runs (spec_step A) evs ([], [], w) b"
  by (rule fresh_runs)

end
