(* ===== verification/CRS_Ledger.thy ===== *)
theory CRS_Ledger
  imports CRS_Process "HOL-Library.Multiset"
begin

text \<open>
  The account of the shared pointers. A ledger is kept beside the external components: a
  pointer that \<open>make_shared\<close> returns or that is copied is entered, a pointer that is given up
  is struck out, and giving up a pointer that is not entered spoils the ledger. In every
  state of a process the ledger shows exactly the pointers that the contexts hold.
\<close>

section \<open>Ledgers\<close>

type_synonym ledger = "(svc \<Rightarrow> nat) option"

definition credit :: "svc \<Rightarrow> ledger \<Rightarrow> ledger" where
  "credit x = map_option (\<lambda>c. c(x := Suc (c x)))"

definition debit :: "svc \<Rightarrow> ledger \<Rightarrow> ledger" where
  "debit x L = Option.bind L (\<lambda>c. if c x = 0 then None else Some (c(x := c x - 1)))"

text \<open>The entries \<open>c\<close> and the pointers \<open>M\<close>.\<close>

definition owing :: "(svc \<Rightarrow> nat) \<Rightarrow> svc multiset \<Rightarrow> ledger" where
  "owing c M = Some (\<lambda>x. c x + count M x)"

lemma owing_empty [simp]: "owing c {#} = Some c"
  by (simp add: owing_def)

lemma credit_owing [simp]: "credit x (owing c M) = owing c (add_mset x M)"
  by (auto simp: credit_def owing_def fun_eq_iff)

lemma debit_owing [simp]:
  "debit x (owing c (add_mset x M)) = owing c M"
  "debit x (owing c (add_mset y (add_mset x M))) = owing c (add_mset y M)"
  by (auto simp: debit_def owing_def fun_eq_iff)

lemma debit_credit [simp]:
  "debit x (credit x L) = L" "debit x (credit y (credit x L)) = credit y L"
  by (cases L; auto simp: debit_def credit_def fun_eq_iff)+

text \<open>
  \<open>enters book m\<close>: when \<open>m\<close> returns a pointer it is entered, and when it throws nothing
  changes.
\<close>

definition enters :: "('w \<Rightarrow> ledger) \<Rightarrow> ('w, svc) prog \<Rightarrow> bool" where
  "enters book m \<longleftrightarrow> (\<forall>w. case m w of
      (Ret x, v) \<Rightarrow> book v = credit x (book w)
    | (Throw e, v) \<Rightarrow> book v = book w
    | (Halt b, v) \<Rightarrow> True)"

definition beside :: "('w \<Rightarrow> ledger) \<Rightarrow> 'v \<times> 'w \<Rightarrow> ledger" where
  "beside book p = book (snd p)"

text \<open>The other operations of the external components leave the pointers of SimCRS alone.\<close>

definition discreet :: "('w \<Rightarrow> ledger) \<Rightarrow> 'w apis \<Rightarrow> bool" where
  "discreet book A \<longleftrightarrow>
     (\<forall>t. keeps book (log_debug (utilA A) t)) \<and> (\<forall>t. keeps book (log_error (utilA A) t)) \<and>
     keeps book (chrono_start (utilA A)) \<and> (\<forall>n. keeps book (chrono_elapsed (utilA A) n)) \<and>
     (\<forall>x. keeps book (stdair_getBomRoot (stdairA A) x)) \<and>
     (\<forall>x. keeps book (stdair_getPersistentBomRoot (stdairA A) x)) \<and>
     (\<forall>x. keeps book (stdair_buildSampleBom (stdairA A) x)) \<and>
     (\<forall>x. keeps book (stdair_clonePersistentBom (stdairA A) x)) \<and>
     (\<forall>x. keeps (beside book) (stdair_buildSampleTravelSolutions (stdairA A) x)) \<and>
     (\<forall>x b. keeps book (stdair_buildSampleBookingRequest (stdairA A) x b)) \<and>
     (\<forall>x r. keeps book (stdair_csvDisplay (stdairA A) x r)) \<and>
     (\<forall>x l. keeps book (stdair_csvDisplay_list (stdairA A) x l)) \<and>
     (\<forall>x f. keeps book (airtsp_parseAndLoad (airtspA A) x f)) \<and>
     (\<forall>x. keeps book (airtsp_buildSampleBom (airtspA A) x)) \<and>
     (\<forall>x. keeps book (airtsp_clonePersistentBom (airtspA A) x)) \<and>
     (\<forall>x q. keeps (beside book) (airtsp_buildSegmentPathList (airtspA A) x q)) \<and>
     (\<forall>x f. keeps book (simfqt_parseAndLoad (simfqtA A) x f)) \<and>
     (\<forall>x. keeps book (simfqt_buildSampleBom (simfqtA A) x)) \<and>
     (\<forall>x. keeps book (simfqt_clonePersistentBom (simfqtA A) x)) \<and>
     (\<forall>x q. keeps (beside book) (simfqt_quotePrices (simfqtA A) x q)) \<and>
     (\<forall>x f g h i j. keeps book (airinv_parseAndLoad (airinvA A) x f g h i j)) \<and>
     (\<forall>x. keeps book (airinv_buildSampleBom (airinvA A) x)) \<and>
     (\<forall>x. keeps book (airinv_clonePersistentBom (airinvA A) x)) \<and>
     (\<forall>x. keeps (beside book) (airinv_calculateAvailability (airinvA A) x)) \<and>
     (\<forall>x c n. keeps book (airinv_sell_id (airinvA A) x c n)) \<and>
     (\<forall>x k c n. keeps book (airinv_sell_key (airinvA A) x k c n)) \<and>
     (\<forall>x c n. keeps book (airinv_cancel (airinvA A) x c n)) \<and>
     (\<forall>x j. keeps book (airinv_jsonHandler (airinvA A) x j)) \<and>
     (\<forall>x a n. keeps book (airinv_list (airinvA A) x a n)) \<and>
     (\<forall>x a n d. keeps book (airinv_csvDisplay (airinvA A) x a n d)) \<and>
     (\<forall>x b e. keeps book (airinv_initSnapshotAndRMEvents (airinvA A) x b e)) \<and>
     (\<forall>x q. keeps book (airinv_takeSnapshots (airinvA A) x q)) \<and>
     (\<forall>x q. keeps book (airinv_optimise (airinvA A) x q))"

lemma keeps_beside_local [keeps_intros]:
  "keeps (beside book) m \<Longrightarrow> keeps book (with_local v m)"
  by (auto simp: keeps_def with_local_def beside_def split: prod.splits outcome.splits)
    (metis snd_conv)+

text \<open>No call of a public method touches the ledger.\<close>

lemma discreetD:
  assumes "discreet book A"
  shows "keeps book (log_debug (utilA A) t)" "keeps book (log_error (utilA A) t)"
    "keeps book (chrono_start (utilA A))" "keeps book (chrono_elapsed (utilA A) n)"
    "keeps book (stdair_getBomRoot (stdairA A) x)"
    "keeps book (stdair_getPersistentBomRoot (stdairA A) x)"
    "keeps book (stdair_buildSampleBom (stdairA A) x)"
    "keeps book (stdair_clonePersistentBom (stdairA A) x)"
    "keeps (beside book) (stdair_buildSampleTravelSolutions (stdairA A) x)"
    "keeps book (stdair_buildSampleBookingRequest (stdairA A) x b)"
    "keeps book (stdair_csvDisplay (stdairA A) x r)"
    "keeps book (stdair_csvDisplay_list (stdairA A) x l)"
    "keeps book (airtsp_parseAndLoad (airtspA A) x f)"
    "keeps book (airtsp_buildSampleBom (airtspA A) x)"
    "keeps book (airtsp_clonePersistentBom (airtspA A) x)"
    "keeps (beside book) (airtsp_buildSegmentPathList (airtspA A) x q)"
    "keeps book (simfqt_parseAndLoad (simfqtA A) x f)"
    "keeps book (simfqt_buildSampleBom (simfqtA A) x)"
    "keeps book (simfqt_clonePersistentBom (simfqtA A) x)"
    "keeps (beside book) (simfqt_quotePrices (simfqtA A) x q)"
    "keeps book (airinv_parseAndLoad (airinvA A) x f g h i j)"
    "keeps book (airinv_buildSampleBom (airinvA A) x)"
    "keeps book (airinv_clonePersistentBom (airinvA A) x)"
    "keeps (beside book) (airinv_calculateAvailability (airinvA A) x)"
    "keeps book (airinv_sell_id (airinvA A) x y m)"
    "keeps book (airinv_sell_key (airinvA A) x k d m)"
    "keeps book (airinv_cancel (airinvA A) x y m)"
    "keeps book (airinv_jsonHandler (airinvA A) x u)"
    "keeps book (airinv_list (airinvA A) x u m)"
    "keeps book (airinv_csvDisplay (airinvA A) x u m dt)"
    "keeps book (airinv_initSnapshotAndRMEvents (airinvA A) x dt dt')"
    "keeps book (airinv_takeSnapshots (airinvA A) x sn)"
    "keeps book (airinv_optimise (airinvA A) x rm)"
  using assms by (simp_all only: discreet_def)

lemma run_call_discreet: "discreet book A \<Longrightarrow> keeps book (run_call A k)"
  by (cases k) (auto simp: run_call_def discreetD intro!: keeps_intros)

lemma run_calls_discreet: "discreet book A \<Longrightarrow> keeps book (run_calls A ks)"
  by (induction ks) (auto intro!: keeps_intros run_call_discreet)

lemma submit_discreet: "discreet book A \<Longrightarrow> keeps book (submit A ai n r)"
  by (cases r) (simp_all add: discreetD)

lemma script_discreet: "discreet book A \<Longrightarrow> keeps book (run_script A ai n sc ok)"
  unfolding run_script_def
  by (auto intro!: keeps_intros submit_discreet split: option.split)

lemma spec_call_discreet:
  assumes "discreet book A"
  shows "keeps book (spec_call A h k)"
  by (cases k) (auto simp: spec_paths_def spec_quote_def spec_sell_def spec_csv_def timed_def
      intro!: keeps_intros run_calls_discreet script_discreet discreetD assms)

section \<open>The account of a specified process\<close>

text \<open>
  The behaviour of \<open>boost::shared_ptr\<close> as the ledger sees it. In the process without memory
  the ledger then shows the pointers of the crews and those that were left behind.
\<close>

locale bookkeeping =
  fixes A :: "'w apis" and book :: "'w \<Rightarrow> ledger"
  assumes copy_law: "book (sptr_copy (sharedA A) x w) = credit x (book w)"
    and release_law: "book (sptr_release (sharedA A) x w) = debit x (book w)"
    and stdair_law: "enters book (stdair_make (stdairA A) lp)"
      "enters book (stdair_make_db (stdairA A) lp dp)"
    and simfqt_law: "enters book (simfqt_make (simfqtA A) p)"
    and airtsp_law: "enters book (airtsp_make (airtspA A) p)"
    and airinv_law: "enters book (airinv_make (airinvA A) p)"
      "enters book (airinv_make_sevmgr (airinvA A) p q)"
    and other_law: "discreet book A"
begin

lemma give_back_all:
  "book w = owing c (mset xs + M) \<Longrightarrow> book (give_back A xs w) = owing c M"
  by (induction xs arbitrary: w) (simp_all add: give_back_def release_law)

lemma share_law: "book (spec_share A n x w) = credit x (book w)"
proof (induction n arbitrary: w)
  case (Suc n)
  have "book (spec_share A (Suc n) x w)
      = book (sptr_release (sharedA A) x (spec_share A n x (sptr_copy (sharedA A) x w)))"
    by (simp add: spec_share_def funpow_swap1)
  with Suc show ?case by (simp add: copy_law release_law)
qed (simp add: spec_share_def copy_law)

lemma share_all: "book w = owing c M \<Longrightarrow>
  book (fold (spec_share A n) xs w) = owing c (mset xs + M)"
  by (induction xs arbitrary: w M) (simp_all add: share_law)

lemma given_law:
  "book w = owing c (mset (given [p]) + M) \<Longrightarrow> book (give_sptr A p w) = owing c M"
  "book w = owing c M \<Longrightarrow> book (take_sptr A p w) = owing c (mset (given [p]) + M)"
  by (cases p; simp add: release_law copy_law)+

text \<open>
  \<open>settled N r ls ls' v\<close>: how the ledger stands when a constructor, called when it showed
  \<open>N\<close>, has ended.
\<close>

definition settled ::
  "(svc \<Rightarrow> nat) \<Rightarrow> svc multiset \<Rightarrow> crew outcome \<Rightarrow> svc list \<Rightarrow> svc list \<Rightarrow> 'w \<Rightarrow> bool" where
  "settled c N q ls ls' v = (case q of
      Ret h \<Rightarrow> ls' = ls \<and> book v = owing c (mset (crew_pointers h) + N)
    | Throw e \<Rightarrow> (\<exists>xs. ls' = ls @ xs \<and> book v = owing c (mset xs + N))
    | Halt b \<Rightarrow> True)"

lemma hire_settled:
  assumes "spec_hire A st held mk (ls, w) = (q, ls', v)" "enters book mk" "book w = owing c M"
  shows "case q of
      Ret x \<Rightarrow> ls' = ls \<and> book v = owing c (add_mset x M)
    | Throw e \<Rightarrow> ls' = ls @ held \<and> book v = owing c M
    | Halt b \<Rightarrow> True"
  using assms(1,3) spec [OF assms(2) [unfolded enters_def], of "sptr_copy (sharedA A) st w"]
  by (auto simp: spec_hire_def share_law copy_law release_law
      split: prod.splits outcome.splits)

lemma crew_settled:
  assumes run: "spec_crew A own st p inventory crs (ls, w) = (q, ls', v)"
    and inv: "enters book inventory"
    and bk: "book w = owing c (mset (given [p, Some st]) + N)"
  shows "settled c N q ls ls' v"
proof -
  let ?held = "mset (given [p, Some st])"
  obtain q1 l1 v1 where 1: "spec_hire A st (given [p, Some st]) (simfqt_make (simfqtA A) (Some st))
      (ls, w) = (q1, l1, v1)" using prod.exhaust by metis
  note s1 = hire_settled [OF 1 simfqt_law bk]
  show ?thesis
  proof (cases q1)
    case fq: (Ret fq)
    obtain q2 l2 v2 where 2: "spec_hire A st (given [Some fq, p, Some st])
        (airtsp_make (airtspA A) (Some st)) (l1, v1) = (q2, l2, v2)" using prod.exhaust by metis
    have "book v1 = owing c (add_mset fq (?held + N))" using s1 fq by simp
    note s2 = hire_settled [OF 2 airtsp_law this]
    show ?thesis
    proof (cases q2)
      case ts: (Ret ts)
      obtain q3 l3 v3 where 3: "spec_hire A st (given [Some fq, Some ts, p, Some st]) inventory
          (l2, v2) = (q3, l3, v3)" using prod.exhaust by metis
      have "book v2 = owing c (add_mset ts (add_mset fq (?held + N)))" using s2 ts by simp
      note s3 = hire_settled [OF 3 inv this]
      show ?thesis
        using run s1 s2 s3 fq ts 1 2 3
        by (cases q3; cases p) (auto simp: spec_crew_def bindM_cases settled_def crew_pointers_def
            add_mset_commute)
    qed (use run s1 s2 fq 1 2 in \<open>auto simp: spec_crew_def bindM_cases settled_def\<close>)
  qed (use run s1 1 in \<open>auto simp: spec_crew_def bindM_cases settled_def\<close>)
qed

lemma inventory_enters: "enters book (spec_inventory A st own p)"
proof (cases own)
  case False
  have "enters book (held_sptr A (Some x) m)" if "enters book m" for x m
    unfolding enters_def
  proof
    fix w
    obtain r v where "m (sptr_copy (sharedA A) x w) = (r, v)" by fastforce
    with spec [OF that [unfolded enters_def], of "sptr_copy (sharedA A) x w"]
    show "case held_sptr A (Some x) m w of (Ret y, v) \<Rightarrow> book v = credit y (book w)
        | (Throw e, v) \<Rightarrow> book v = book w | (Halt b, v) \<Rightarrow> True"
      by (cases r) (simp_all add: held_sptr_def finally_do_def copy_law release_law)
  qed
  with False airinv_law(2) show ?thesis
    by (cases p) (simp_all add: spec_inventory_def enters_def [of _ "halt b" for b])
qed (use airinv_law in \<open>simp add: spec_inventory_def\<close>)

text \<open>A pointer that is held while a constructor runs.\<close>

lemma local_settled:
  assumes "spec_local A p m (ls, w) = (q, ls', v)"
    and "\<And>v. m (ls, w) = (q, ls', v) \<Longrightarrow> settled c (mset (given [p]) + N) q ls ls' v"
  shows "settled c N q ls ls' v"
proof -
  obtain v' where "m (ls, w) = (q, ls', v')" "\<not> is_halt q \<longrightarrow> v = give_sptr A p v'"
    using assms(1) by (auto simp: spec_local_def finally_do_def split: prod.splits outcome.splits)
  with assms(2) [OF this(1)] given_law(1) [of v' c p] show ?thesis
    by (cases q) (auto simp: settled_def ac_simps)
qed

lemma param_settled:
  assumes "spec_param A p m (ls, w) = (q, ls', v)" and "book w = owing c N"
    and "\<And>u v. book u = owing c (mset (given [p]) + N) \<Longrightarrow> m (ls, u) = (q, ls', v) \<Longrightarrow>
      settled c (mset (given [p]) + N) q ls ls' v"
  shows "settled c N q ls ls' v"
proof (rule local_settled)
  show "spec_local A p m (ls, take_sptr A p w) = (q, ls', v)"
    using assms(1) by (simp add: spec_param_def)
qed (use assms(3) [OF given_law(2) [OF assms(2)]] in blast)

lemma own_settled:
  assumes "spec_own A crs st (ls, w) = (q, ls', v)" "book w = owing c (add_mset st N)"
  shows "settled c N q ls ls' v"
  using assms(1) unfolding spec_own_def
proof (rule local_settled)
  fix v
  have "book (spec_share A 2 st w)
      = owing c (mset (given [None, Some st]) + (mset (given [Some st]) + N))"
    using assms(2) by (simp add: share_law)
  moreover assume "seqM (spec_attach A [st]) (spec_crew A True st None
      (spec_inventory A st True None) crs) (ls, w) = (q, ls', v)"
  ultimately show "settled c (mset (given [Some st]) + N) q ls ls' v"
    using crew_settled [OF _ inventory_enters] by (simp add: spec_attach_def)
qed

lemma make_settled:
  assumes run: "bindM (beside_ref mk) (spec_own A crs) (ls, w) = (q, ls', v)"
    and law: "enters book mk" and bk: "book w = owing c N"
  shows "settled c N q ls ls' v"
proof -
  obtain r u where mk: "mk w = (r, u)" by fastforce
  show ?thesis
  proof (cases r)
    case (Ret st)
    with mk spec [OF law [unfolded enters_def], of w] bk have "book u = owing c (add_mset st N)"
      by simp
    moreover have "spec_own A crs st (ls, u) = (q, ls', v)"
      using run mk Ret by (simp add: bindM_cases beside_ref_def)
    ultimately show ?thesis using own_settled by blast
  qed (use run mk spec [OF law [unfolded enters_def], of w] bk in
      \<open>auto simp: bindM_cases beside_ref_def settled_def intro: exI [of _ "[]"]\<close>)
qed

lemma constructor_settled:
  assumes "spec_constructor A m" "m (ls, w) = (q, ls', v)" "book w = owing c N"
  shows "settled c N q ls ls' v"
  using assms(1)
proof cases
  case (spec_shared st p crs)
  show ?thesis
    using assms(2) unfolding spec_shared spec_construct_shared_def
  proof (rule param_settled [OF _ assms(3)], elim param_settled)
    fix u' v M assume u: "book u' = owing c M"
      and run: "seqM (spec_attach A (given [Some st, p]))
        (spec_crew A False st p (spec_inventory A st False p) crs) (ls, u') = (q, ls', v)"
    have "book (fold (spec_share A 2) (given [Some st, p]) u')
        = owing c (mset (given [p, Some st]) + M)"
      using share_all [OF u, of 2 "given [Some st, p]"]
      by (cases p) (simp_all add: add_mset_commute)
    with run crew_settled [OF _ inventory_enters] show "settled c M q ls ls' v"
      by (simp add: spec_attach_def)
  qed
qed (use assms(2,3) make_settled stdair_law in
    \<open>simp_all add: spec_construct_def spec_construct_db_def\<close>)

text \<open>What the ledger shows in a state of the specified process.\<close>

definition in_order :: "(svc \<Rightarrow> nat) \<Rightarrow> 'w specified \<Rightarrow> bool" where
  "in_order c u = (case u of (hs, ls, w) \<Rightarrow>
     book w = owing c (mset (concat (map crew_pointers hs)) + mset ls))"

lemma step_in_order:
  assumes "spec_step A e u v" "in_order c u"
  shows "in_order c v"
  using assms(1)
proof cases
  case (spec_new m ls w h ls' v hs)
  with assms(2) constructor_settled [OF spec_new(4,5)] show ?thesis
    by (simp add: in_order_def settled_def ac_simps)
next
  case (spec_fails m ls w ex ls' v hs)
  then have "book w = owing c (mset (concat (map crew_pointers hs)) + mset ls)"
    using assms(2) by (simp add: in_order_def)
  from constructor_settled [OF spec_fails(4,5) this] spec_fails show ?thesis
    by (auto simp: in_order_def settled_def ac_simps)
next
  case (spec_called h hs k w r v ls)
  have "book v = book w" using keepsD [OF spec_call_discreet [OF other_law] spec_called(5)] .
  with spec_called assms(2) show ?thesis by (simp add: in_order_def)
next
  case (spec_gone as h bs ls w)
  have "book w = owing c (mset (crew_pointers h) +
      (mset (concat (map crew_pointers (as @ bs))) + mset ls))"
    using assms(2) spec_gone by (simp add: in_order_def ac_simps)
  from give_back_all [OF this] spec_gone show ?thesis by (simp add: in_order_def)
next
  case (spec_clean ls w)
  have "book w = owing c (mset ls + {#})" using assms(2) spec_clean by (simp add: in_order_def)
  from give_back_all [OF this] spec_clean show ?thesis by (simp add: in_order_def)
qed

lemma runs_in_order: "runs (spec_step A) evs u v \<Longrightarrow> in_order c u \<Longrightarrow> in_order c v"
  by (induction rule: runs.induct) (auto intro: step_in_order)

end

section \<open>The ledger beside the external components\<close>

text \<open>
  \<open>with_ledger A\<close>: the components \<open>A\<close>, whatever they do, and the ledger beside them.
\<close>

definition aside :: "('w, 'a) prog \<Rightarrow> ('w \<times> ledger, 'a) prog" where
  "aside m = (\<lambda>(w, L). case m w of (r, v) \<Rightarrow> (r, v, L))"

definition aside_ref :: "('v \<times> 'w, 'a) prog \<Rightarrow> ('v \<times> 'w \<times> ledger, 'a) prog" where
  "aside_ref m = (\<lambda>(x, w, L). case m (x, w) of (r, y, v) \<Rightarrow> (r, y, v, L))"

definition entering :: "('w, svc) prog \<Rightarrow> ('w \<times> ledger, svc) prog" where
  "entering m = (\<lambda>(w, L). case m w of
      (Ret x, v) \<Rightarrow> (Ret x, v, credit x L)
    | (r, v) \<Rightarrow> (r, v, L))"

definition with_ledger :: "'w apis \<Rightarrow> ('w \<times> ledger) apis" where
  "with_ledger A = \<lparr>
     stdairA = \<lparr>stdair_make = (\<lambda>lp. entering (stdair_make (stdairA A) lp)),
       stdair_make_db = (\<lambda>lp dp. entering (stdair_make_db (stdairA A) lp dp)),
       stdair_getBomRoot = (\<lambda>x. aside (stdair_getBomRoot (stdairA A) x)),
       stdair_getPersistentBomRoot = (\<lambda>x. aside (stdair_getPersistentBomRoot (stdairA A) x)),
       stdair_buildSampleBom = (\<lambda>x. aside (stdair_buildSampleBom (stdairA A) x)),
       stdair_clonePersistentBom = (\<lambda>x. aside (stdair_clonePersistentBom (stdairA A) x)),
       stdair_buildSampleTravelSolutions =
         (\<lambda>x. aside_ref (stdair_buildSampleTravelSolutions (stdairA A) x)),
       stdair_buildSampleBookingRequest =
         (\<lambda>x b. aside (stdair_buildSampleBookingRequest (stdairA A) x b)),
       stdair_csvDisplay = (\<lambda>x r. aside (stdair_csvDisplay (stdairA A) x r)),
       stdair_csvDisplay_list = (\<lambda>x l. aside (stdair_csvDisplay_list (stdairA A) x l))\<rparr>,
     airtspA = \<lparr>airtsp_make = (\<lambda>p. entering (airtsp_make (airtspA A) p)),
       airtsp_parseAndLoad = (\<lambda>x f. aside (airtsp_parseAndLoad (airtspA A) x f)),
       airtsp_buildSampleBom = (\<lambda>x. aside (airtsp_buildSampleBom (airtspA A) x)),
       airtsp_clonePersistentBom = (\<lambda>x. aside (airtsp_clonePersistentBom (airtspA A) x)),
       airtsp_buildSegmentPathList =
         (\<lambda>x q. aside_ref (airtsp_buildSegmentPathList (airtspA A) x q))\<rparr>,
     simfqtA = \<lparr>simfqt_make = (\<lambda>p. entering (simfqt_make (simfqtA A) p)),
       simfqt_parseAndLoad = (\<lambda>x f. aside (simfqt_parseAndLoad (simfqtA A) x f)),
       simfqt_buildSampleBom = (\<lambda>x. aside (simfqt_buildSampleBom (simfqtA A) x)),
       simfqt_clonePersistentBom = (\<lambda>x. aside (simfqt_clonePersistentBom (simfqtA A) x)),
       simfqt_quotePrices = (\<lambda>x q. aside_ref (simfqt_quotePrices (simfqtA A) x q))\<rparr>,
     airinvA = \<lparr>airinv_make = (\<lambda>p. entering (airinv_make (airinvA A) p)),
       airinv_make_sevmgr = (\<lambda>p q. entering (airinv_make_sevmgr (airinvA A) p q)),
       airinv_parseAndLoad =
         (\<lambda>x f g h i j. aside (airinv_parseAndLoad (airinvA A) x f g h i j)),
       airinv_buildSampleBom = (\<lambda>x. aside (airinv_buildSampleBom (airinvA A) x)),
       airinv_clonePersistentBom = (\<lambda>x. aside (airinv_clonePersistentBom (airinvA A) x)),
       airinv_calculateAvailability =
         (\<lambda>x. aside_ref (airinv_calculateAvailability (airinvA A) x)),
       airinv_sell_id = (\<lambda>x c n. aside (airinv_sell_id (airinvA A) x c n)),
       airinv_sell_key = (\<lambda>x k c n. aside (airinv_sell_key (airinvA A) x k c n)),
       airinv_cancel = (\<lambda>x c n. aside (airinv_cancel (airinvA A) x c n)),
       airinv_jsonHandler = (\<lambda>x j. aside (airinv_jsonHandler (airinvA A) x j)),
       airinv_list = (\<lambda>x a n. aside (airinv_list (airinvA A) x a n)),
       airinv_csvDisplay = (\<lambda>x a n d. aside (airinv_csvDisplay (airinvA A) x a n d)),
       airinv_initSnapshotAndRMEvents =
         (\<lambda>x b e. aside (airinv_initSnapshotAndRMEvents (airinvA A) x b e)),
       airinv_takeSnapshots = (\<lambda>x q. aside (airinv_takeSnapshots (airinvA A) x q)),
       airinv_optimise = (\<lambda>x q. aside (airinv_optimise (airinvA A) x q))\<rparr>,
     utilA = \<lparr>log_debug = (\<lambda>t. aside (log_debug (utilA A) t)),
       log_error = (\<lambda>t. aside (log_error (utilA A) t)),
       chrono_start = aside (chrono_start (utilA A)),
       chrono_elapsed = (\<lambda>n. aside (chrono_elapsed (utilA A) n)),
       show_party = show_party (utilA A), show_fare = show_fare (utilA A),
       describe_solution = describe_solution (utilA A),
       describe_fare_option = describe_fare_option (utilA A),
       describe_cancellation = describe_cancellation (utilA A),
       display_solution = display_solution (utilA A),
       display_request = display_request (utilA A),
       stream_request = stream_request (utilA A), seats_of_party = seats_of_party (utilA A)\<rparr>,
     sharedA = \<lparr>sptr_copy = (\<lambda>x (w, L). (sptr_copy (sharedA A) x w, credit x L)),
       sptr_release = (\<lambda>x (w, L). (sptr_release (sharedA A) x w, debit x L))\<rparr>\<rparr>"

lemma keeps_aside [simp]: "keeps snd (aside m)" "keeps (beside snd) (aside_ref n)"
  by (auto simp: keeps_def aside_def aside_ref_def beside_def split: prod.split)

lemma enters_entering [simp]: "enters snd (entering m)"
  by (auto simp: enters_def entering_def split: prod.splits outcome.splits)

interpretation ledger: bookkeeping "with_ledger A" snd for A
  by unfold_locales (simp_all add: with_ledger_def discreet_def split: prod.split)

section \<open>The pointers in memory\<close>

text \<open>
  The pointers of all contexts, one by one along the pool, are those of the crews of the live
  services and those that belong to no live service.
\<close>

lemma context_pool_dom:
  assumes "mem_ok s"
  shows "set (context_pool s) = Some ` dom (contexts s)" "distinct (context_pool s)"
proof -
  note layer = service_layer_okD [OF mem_okD(1) [OF assms]]
  have "Some a \<in> set (context_pool s)" if live: "a \<in> dom (contexts s)" for a
  proof -
    obtain f p where f: "serviceFactories s f = Some p" "Some a \<in> set p"
      using iffD1 [OF pools_own_dom [OF layer(1), of a] live] unfolding in_pool_def by blast
    then have "f \<in> dom (serviceFactories s)" by blast
    then have "ctxFactoryInstance s = Some f"
      unfolding layer(2) by (cases "ctxFactoryInstance s") simp_all
    with f show ?thesis by (simp add: context_pool_def)
  qed
  then show "set (context_pool s) = Some ` dom (contexts s)"
    by (auto elim!: context_pool_live [OF assms])
  show "distinct (context_pool s)"
    using pools_own_pool [OF layer(1)] by (auto simp: context_pool_def split: option.split)
qed

lemma context_refs_slots: "context_refs x c = count (mset (given (rev (context_slots c)))) x"
proof -
  have "count (mset (given ps)) x = length (filter (\<lambda>p. p = Some x) ps)" for ps
  proof (induction ps)
    case (Cons p ps)
    then show ?case by (cases p) auto
  qed simp
  then show ?thesis by (simp add: context_refs_def rev_filter [symmetric])
qed

lemma count_concat: "count (mset (concat (map f xs))) x = (\<Sum>y\<leftarrow>xs. count (mset (f y)) x)"
  by (induction xs) simp_all

lemma crew_refs: "crew_of c = Some h \<Longrightarrow> context_refs x c = count (mset (crew_pointers h)) x"
  by (auto simp: crew_of_def context_refs_slots context_slots_def crew_pointers_def
      split: option.splits) (cases "sevmgrService c"; auto)+

lemma held_refs_staff:
  assumes "all_serve (vs, s)"
  shows "held_refs x s = count (mset (concat (map crew_pointers (fst (staff (vs, s)))))
    + mset (leaked vs s)) x"
proof -
  have ok: "mem_ok s" using assms by simp
  let ?live = "\<lambda>a. Some a \<in> simcrsServiceContext ` set vs"
  let ?refs = "\<lambda>a. context_refs x (the (contexts s a))"
  have fin: "finite (dom (contexts s))" by (rule finite_contexts [OF ok])
  have live: "{a \<in> dom (contexts s). ?live a} = (\<lambda>this. the (simcrsServiceContext this)) ` set vs"
    using assms by (force simp: serves_def image_iff)
  have "simcrsServiceContext this \<noteq> None" if "this \<in> set vs" for this
    using assms that by (auto simp: serves_def)
  then have inj: "inj_on (\<lambda>this. the (simcrsServiceContext this)) (set vs)"
    by (intro inj_onI service_eqI) (metis option.expand)
  have crews: "?refs (the (simcrsServiceContext this))
      = count (mset (crew_pointers (the (crew_at s this)))) x" if "this \<in> set vs" for this
  proof -
    have "serves this s" using assms that by simp
    from crew_at_serves [OF this] obtain h where h: "crew_at s this = Some h" by blast
    then obtain a c where "simcrsServiceContext this = Some a" "contexts s a = Some c"
      "crew_of c = Some h" unfolding crew_at_iff by blast
    with crew_refs [of c h x] h show ?thesis by simp
  qed
  have "(\<Sum>a | a \<in> dom (contexts s) \<and> ?live a. ?refs a)
      = (\<Sum>this \<in> set vs. count (mset (crew_pointers (the (crew_at s this)))) x)"
    unfolding live by (subst sum.reindex [OF inj]) (simp add: crews)
  also have "\<dots> = count (mset (concat (map crew_pointers (fst (staff (vs, s)))))) x"
    using assms by (simp add: count_concat comp_def sum_list_distinct_conv_sum_set)
  finally have 1: "(\<Sum>a | a \<in> dom (contexts s) \<and> ?live a. ?refs a)
      = count (mset (concat (map crew_pointers (fst (staff (vs, s)))))) x" .
  let ?left = "\<lambda>p. if p \<in> simcrsServiceContext ` set vs then []
      else given (rev (context_slots (the (contexts s (the p)))))"
  have "count (mset (leaked vs s)) x = (\<Sum>p \<in> set (context_pool s). count (mset (?left p)) x)"
    using context_pool_dom(2) [OF ok]
    by (simp add: leaked_def count_concat sum_list_distinct_conv_sum_set)
  also have "\<dots> = (\<Sum>a \<in> dom (contexts s). if ?live a then 0 else ?refs a)"
    unfolding context_pool_dom(1) [OF ok]
    by (subst sum.reindex) (auto simp: context_refs_slots intro!: sum.cong)
  finally have 2: "count (mset (leaked vs s)) x
      = (\<Sum>a \<in> dom (contexts s). if ?live a then 0 else ?refs a)" .
  have "held_refs x s = (\<Sum>a \<in> dom (contexts s). (if ?live a then ?refs a else 0)
      + (if ?live a then 0 else ?refs a))"
    unfolding held_refs_def by (rule sum.cong) simp_all
  also have "\<dots> = (\<Sum>a | a \<in> dom (contexts s) \<and> ?live a. ?refs a)
      + (\<Sum>a \<in> dom (contexts s). if ?live a then 0 else ?refs a)"
    by (simp add: sum.distrib sum.inter_filter [OF fin])
  finally show ?thesis using 1 2 by simp
qed

lemma ledger_of_trace:
  assumes "trace (with_ledger A) evs ([], fresh_state (w, Some c)) (vs, s)"
  shows "snd (world s) = Some (\<lambda>x. c x + held_refs x s)"
proof -
  have serve: "all_serve (vs, s)" by (rule trace_all_serve [OF assms fresh_all_serve])
  have "runs (spec_step (with_ledger A)) evs ([], [], w, Some c) (staff (vs, s))"
    using process.runs_forward [OF assms fresh_all_serve]
    by (simp add: fresh_state_def leaked_def context_pool_def)
  from ledger.runs_in_order [OF this, of c] have "ledger.in_order c (staff (vs, s))"
    by (simp add: ledger.in_order_def)
  then show ?thesis
    using held_refs_staff [OF serve] by (simp add: ledger.in_order_def owing_def fun_eq_iff)
qed

text \<open>
  The sample environment with a ledger, the state after one construction in it, and a sample
  environment in which the constructor of the inventory throws.
\<close>

definition sample_ledgers :: "(echo \<times> ledger) apis" where
  "sample_ledgers = with_ledger (echo_apis (\<lambda>_. True) [])"

definition ledger_state :: "(svc \<Rightarrow> nat) \<Rightarrow> (echo \<times> ledger) crs_state" where
  "ledger_state c = \<lparr>supervisorInstance = Some 1, ctxFactoryInstance = Some 0,
     supervisors = [1 \<mapsto> \<lparr>bomPool = [], svcPool = [Some 0]\<rparr>],
     serviceFactories = [0 \<mapsto> [Some 2]], bomFactories = Map.empty,
     contexts = [2 \<mapsto> sample_context True], boms = Map.empty, nextAddr = 3,
     world = (([(''stdair'', 0), (''simfqt'', 1), (''airtsp'', 2), (''airinv'', 3)], 4),
       Some (c(0 := 1, 1 := 1, 2 := 1, 3 := 1)))\<rparr>"

lemma ledger_run:
  "SIMCRS_Service_log sample_ledgers lp ''1P'' (fresh_state (([], 0), Some (\<lambda>_. 0)))
     = (Ret sample_service, ledger_state (\<lambda>_. 0))"
  by (simp add: sample_ledgers_def with_ledger_def entering_def SIMCRS_Service_log_def
      init_defs creation_defs sample_defs echo_apis_def bindM_cases seqM_cases on_world_def
      setter_defs getter_defs Let_def load_def numeral_2_eq_2 numeral_3_eq_3 with_copy_run
      with_sptr_def finally_world_def finally_do_def pass_sptr_def assign_sptr_def
      ledger_state_def credit_def debit_def fun_eq_iff)

definition failing_inventory :: "echo apis" where
  "failing_inventory = (echo_apis (\<lambda>_. True) [])\<lparr>airinvA := (airinvA (echo_apis (\<lambda>_. True) []))
     \<lparr>airinv_make := (\<lambda>_. raise (ExternalException ''inventory''))\<rparr>\<rparr>"

lemma failing_ledger:
  "\<exists>t. SIMCRS_Service_log (with_ledger failing_inventory) lp ''1P'' (fresh_state (([], 0), Some c))
     = (Throw (ExternalException ''inventory''), t)"
  by (simp add: failing_inventory_def with_ledger_def entering_def SIMCRS_Service_log_def
      init_defs creation_defs sample_defs echo_apis_def bindM_cases seqM_cases on_world_def
      setter_defs getter_defs Let_def load_def numeral_2_eq_2 numeral_3_eq_3 with_copy_run
      with_sptr_def finally_world_def finally_do_def pass_sptr_def assign_sptr_def)

lemma ledger_trace:
  "trace sample_ledgers [Construct] ([], fresh_state (([], 0), Some (\<lambda>_. 0)))
     ([sample_service], ledger_state (\<lambda>_. 0))"
  by (rule trace_one, rule crs_step.construct [OF ctor_log ledger_run])

lemma failing_trace:
  "\<exists>s. trace (with_ledger failing_inventory) ([Construct_Fails] @ [Clean])
     ([], fresh_state (([], 0), Some c)) ([], s)"
proof -
  obtain t where t: "SIMCRS_Service_log (with_ledger failing_inventory) sample_log ''1P''
      (fresh_state (([], 0), Some c)) = (Throw (ExternalException ''inventory''), t)"
    using failing_ledger by blast
  have fails: "crs_step (with_ledger failing_inventory) Construct_Fails
      ([], fresh_state (([], 0), Some c)) ([], t)"
    by (rule crs_step.construct_fails [OF ctor_log t])
  have "mem_ok t" using step_all_serve [OF fails fresh_all_serve] by simp
  from trace_snoc [OF trace_one [OF fails] crs_step.clean [OF cleanFactory_run [OF this]]]
  show ?thesis by blast
qed

section \<open>Properties\<close>

text \<open>
  C6. The account of the shared pointers is exact: after any history of constructions, failed
  constructions, calls, destructions and clean-ups, whatever the other components do, SimCRS
  holds on each external service exactly the shared pointers that are in its contexts, and
  none has ever been given up that was not held. No pointer is lost on the way: not the local
  ones of a constructor, on none of its exits.
\<close>

theorem pointers_accounted:
  assumes "trace (with_ledger A) evs ([], fresh_state (w, Some c)) (vs, s)"
  shows "snd (world s) = Some (\<lambda>x. c x + held_refs x s)"
  by (rule ledger_of_trace [OF assms])

theorem pointers_accounted_witness:
  "snd (world (ledger_state (\<lambda>_. 0))) = Some (\<lambda>x. held_refs x (ledger_state (\<lambda>_. 0)))"
  using pointers_accounted [OF ledger_trace [unfolded sample_ledgers_def]] by simp

text \<open>
  C12. A clean-up gives everything back: after any history that ends with a clean-up of the
  factories, failed constructions included, each shared pointer that SimCRS has taken has
  been given back, once.
\<close>

theorem clean_up_gives_back:
  assumes "trace (with_ledger A) (evs @ [Clean]) ([], fresh_state (w, Some c)) (vs, s)"
  shows "snd (world s) = Some c"
proof -
  from assms obtain v where last: "crs_step (with_ledger A) Clean v (vs, s)" and
    v: "trace (with_ledger A) evs ([], fresh_state (w, Some c)) v"
    by (rule runs_snocE)
  from last obtain m where "v = ([], m)" "cleanFactory (with_ledger A) m = (Ret (), s)"
    by (rule cleanE) simp
  with trace_all_serve [OF v fresh_all_serve] have "s = cleaned (with_ledger A) m"
    using cleanFactory_run [of m "with_ledger A"] by simp
  then have "held_refs x s = 0" for x by (simp add: held_refs_def cleaned_def)
  with ledger_of_trace [OF assms] show ?thesis by simp
qed

theorem clean_up_gives_back_witness:
  "\<exists>s. trace (with_ledger failing_inventory) ([Construct_Fails] @ [Clean])
       ([], fresh_state (([], 0), Some (\<lambda>_. 0))) ([], s) \<and> snd (world s) = Some (\<lambda>_. 0)"
proof -
  obtain s where s: "trace (with_ledger failing_inventory) ([Construct_Fails] @ [Clean])
      ([], fresh_state (([], 0), Some (\<lambda>_. 0))) ([], s)"
    using failing_trace [of "\<lambda>_. 0"] by blast
  from clean_up_gives_back [OF s] s show ?thesis by blast
qed

end
