(* ===== verification/CRS_Batch.thy ===== *)
theory CRS_Batch
  imports CRS_Methods
begin

text \<open>
  The batch program (\<open>simcrs/batches/simcrs.cpp\<close>): its options, \<open>readConfiguration\<close> and
  \<open>main\<close>. What Boost.Program_options does with the option tables and the arguments, the paths
  that the build configures and the log file are parameters. The standard output and the
  standard error are texts of the process state, which extends the state of the services.
\<close>

section \<open>Options\<close>

datatype config_var =
    V_Schedule | V_OnD | V_FRAT5 | V_FFDisutility | V_Yield | V_Fare | V_Log
  | V_DBUser | V_DBPasswd | V_DBHost | V_DBPort | V_DBName

text \<open>
  An option has a long name, perhaps a letter, and is a flag, a string bound to a variable
  with a default value, or a list of strings.
\<close>

datatype option_value = Flag | Bound config_var string | Strings

record option_spec =
  longName :: string
  letter :: "char option"
  semantic :: option_value
  description :: string

record build_config =
  STDAIR_SAMPLE_DIR :: string
  PACKAGE_NAME :: string
  PACKAGE_VERSION :: string
  PREFIXDIR :: string

definition opt :: "string \<Rightarrow> char option \<Rightarrow> option_value \<Rightarrow> string \<Rightarrow> option_spec" where
  "opt n l v d = \<lparr>longName = n, letter = l, semantic = v, description = d\<rparr>"

definition K_SIMCRS_DEFAULT_LOG_FILENAME :: string where
  "K_SIMCRS_DEFAULT_LOG_FILENAME = ''simcrs.log''"

definition K_SIMCRS_DEFAULT_SCHEDULE_INPUT_FILENAME :: "build_config \<Rightarrow> string" where
  "K_SIMCRS_DEFAULT_SCHEDULE_INPUT_FILENAME B = STDAIR_SAMPLE_DIR B @ ''/schedule01.csv''"

definition K_SIMCRS_DEFAULT_OND_INPUT_FILENAME :: "build_config \<Rightarrow> string" where
  "K_SIMCRS_DEFAULT_OND_INPUT_FILENAME B = STDAIR_SAMPLE_DIR B @ ''/ond01.csv''"

definition K_SIMCRS_DEFAULT_FRAT5_INPUT_FILENAME :: "build_config \<Rightarrow> string" where
  "K_SIMCRS_DEFAULT_FRAT5_INPUT_FILENAME B = STDAIR_SAMPLE_DIR B @ ''/frat5.csv''"

definition K_SIMCRS_DEFAULT_FF_DISUTILITY_INPUT_FILENAME :: "build_config \<Rightarrow> string" where
  "K_SIMCRS_DEFAULT_FF_DISUTILITY_INPUT_FILENAME B = STDAIR_SAMPLE_DIR B @ ''/ffDisutility.csv''"

definition K_SIMCRS_DEFAULT_YIELD_INPUT_FILENAME :: "build_config \<Rightarrow> string" where
  "K_SIMCRS_DEFAULT_YIELD_INPUT_FILENAME B = STDAIR_SAMPLE_DIR B @ ''/yieldstore01.csv''"

definition K_SIMCRS_DEFAULT_FARE_INPUT_FILENAME :: "build_config \<Rightarrow> string" where
  "K_SIMCRS_DEFAULT_FARE_INPUT_FILENAME B = STDAIR_SAMPLE_DIR B @ ''/fare01.csv''"

definition K_SIMCRS_DEFAULT_BUILT_IN_INPUT :: bool where
  "K_SIMCRS_DEFAULT_BUILT_IN_INPUT = False"

definition K_SIMCRS_EARLY_RETURN_STATUS :: int where
  "K_SIMCRS_EARLY_RETURN_STATUS = 99"

definition K_SIMCRS_DEFAULT_DB_USER :: string where
  "K_SIMCRS_DEFAULT_DB_USER = ''dsim''"

definition K_SIMCRS_DEFAULT_DB_PASSWD :: string where
  "K_SIMCRS_DEFAULT_DB_PASSWD = ''dsim''"

definition K_SIMCRS_DEFAULT_DB_DBNAME :: string where
  "K_SIMCRS_DEFAULT_DB_DBNAME = ''sim_dsim''"

definition K_SIMCRS_DEFAULT_DB_HOST :: string where
  "K_SIMCRS_DEFAULT_DB_HOST = ''localhost''"

definition K_SIMCRS_DEFAULT_DB_PORT :: string where
  "K_SIMCRS_DEFAULT_DB_PORT = ''3306''"

definition generic_options :: "option_spec list" where
  "generic_options = [
     opt ''prefix'' None Flag ''print installation prefix'',
     opt ''version'' (Some CHR ''v'') Flag ''print version string'',
     opt ''help'' (Some CHR ''h'') Flag ''produce help message'']"

definition config_options :: "build_config \<Rightarrow> option_spec list" where
  "config_options B = [
     opt ''builtin'' (Some CHR ''b'') Flag
       (''The sample BOM tree can be either built-in or parsed from input files. '' @
        ''In that latter case, the input files must be specified as well '' @
        ''(e.g., -s/--schedule,  -o/--ond, -f/--fare, -y/--yield)''),
     opt ''schedule'' (Some CHR ''s'')
       (Bound V_Schedule (K_SIMCRS_DEFAULT_SCHEDULE_INPUT_FILENAME B))
       ''(CVS) input file for the schedules'',
     opt ''ond'' (Some CHR ''o'')
       (Bound V_OnD (K_SIMCRS_DEFAULT_OND_INPUT_FILENAME B))
       ''(CVS) input file for the O&D definitions'',
     opt ''frat5'' (Some CHR ''F'')
       (Bound V_FRAT5 (K_SIMCRS_DEFAULT_FRAT5_INPUT_FILENAME B))
       ''(CSV) input file for the FRAT5 Curve'',
     opt ''ff_disutility'' (Some CHR ''D'')
       (Bound V_FFDisutility (K_SIMCRS_DEFAULT_FF_DISUTILITY_INPUT_FILENAME B))
       ''(CSV) input file for the FF disutility Curve'',
     opt ''yield'' (Some CHR ''y'')
       (Bound V_Yield (K_SIMCRS_DEFAULT_YIELD_INPUT_FILENAME B))
       ''(CVS) input file for the yields'',
     opt ''fare'' (Some CHR ''f'')
       (Bound V_Fare (K_SIMCRS_DEFAULT_FARE_INPUT_FILENAME B))
       ''(CVS) input file for the fares'',
     opt ''log'' (Some CHR ''l'') (Bound V_Log K_SIMCRS_DEFAULT_LOG_FILENAME)
       ''Filepath for the logs'',
     opt ''user'' (Some CHR ''u'') (Bound V_DBUser K_SIMCRS_DEFAULT_DB_USER)
       ''SQL database username'',
     opt ''passwd'' (Some CHR ''p'') (Bound V_DBPasswd K_SIMCRS_DEFAULT_DB_PASSWD)
       ''SQL database password'',
     opt ''host'' (Some CHR ''H'') (Bound V_DBHost K_SIMCRS_DEFAULT_DB_HOST)
       ''SQL database hostname'',
     opt ''port'' (Some CHR ''P'') (Bound V_DBPort K_SIMCRS_DEFAULT_DB_PORT)
       ''SQL database port'',
     opt ''dbname'' (Some CHR ''m'') (Bound V_DBName K_SIMCRS_DEFAULT_DB_DBNAME)
       ''SQL database name'']"

definition hidden_options :: "option_spec list" where
  "hidden_options = [opt ''copyright'' None Strings ''Show the copyright (license)'']"

definition cmdline_options :: "build_config \<Rightarrow> option_spec list" where
  "cmdline_options B = generic_options @ config_options B @ hidden_options"

definition config_file_options :: "build_config \<Rightarrow> option_spec list" where
  "config_file_options B = config_options B @ hidden_options"

definition visible_options :: "build_config \<Rightarrow> option_spec list" where
  "visible_options B = generic_options @ config_options B"

section \<open>Process state and parameters\<close>

record 'w process = "'w crs_state" +
  cout :: string
  cerr :: string

text \<open>The reference parameters of \<open>readConfiguration\<close>, which are local variables of \<open>main\<close>.\<close>

record configuration =
  ioIsBuiltin :: bool
  ioScheduleInputFilename :: string
  ioOnDInputFilename :: string
  ioFRAT5Filename :: string
  ioFFDisutilityFilename :: string
  ioYieldInputFilename :: string
  ioFareInputFilename :: string
  ioLogFilename :: string
  ioDBUser :: string
  ioDBPasswd :: string
  ioDBHost :: string
  ioDBPort :: string
  ioDBDBName :: string

type_synonym variables_map = "string \<rightharpoonup> string"

text \<open>
  \<open>po_parse\<close> stands for the two \<open>store\<close> calls (command line with its positional option, file
  \<open>simcrs.cfg\<close>) and \<open>notify\<close>, which writes the variables bound in the tables; it may throw.
  \<open>po_show\<close> is the text of a table, \<open>log_open\<close>, \<open>log_close\<close> and \<open>log_destroy\<close> are the log
  file's stream; its destructor closes the file if it is still open and does not throw.
\<close>

record 'w batch_api =
  po_parse :: "option_spec list \<Rightarrow> option_spec list \<Rightarrow> string \<Rightarrow> string list \<Rightarrow> configuration
    \<Rightarrow> ('w, variables_map \<times> configuration) prog"
  po_show :: "option_spec list \<Rightarrow> string"
  log_open :: "string \<Rightarrow> ('w, unit) prog"
  log_close :: "string \<Rightarrow> ('w, unit) prog"
  log_destroy :: "string \<Rightarrow> 'w \<Rightarrow> 'w"

definition print_line :: "string \<Rightarrow> (('w, 'x) process_scheme, unit) prog" where
  "print_line t = modS (\<lambda>s. s\<lparr>cout := cout s @ t @ [CHR 0x0A]\<rparr>)"

definition print_error :: "string \<Rightarrow> (('w, 'x) process_scheme, unit) prog" where
  "print_error t = modS (\<lambda>s. s\<lparr>cerr := cerr s @ t @ [CHR 0x0A]\<rparr>)"

section \<open>readConfiguration\<close>

definition oErrorMessageStr :: string where
  "oErrorMessageStr = ''Either the -b/--builtin option, or the combination of '' @
     ''the -s/--schedule, -o/--ond, -f/--fare and -y/--yield '' @
     ''options must be specified''"

text \<open>
  One block of the input files: if the option has a value, the variable gets it and it is
  printed, otherwise the error message is printed. And one block of the other options, which
  is silent when there is no value.
\<close>

definition input_file ::
  "variables_map \<Rightarrow> string \<Rightarrow> string \<Rightarrow> (string \<Rightarrow> configuration \<Rightarrow> configuration)
   \<Rightarrow> configuration \<Rightarrow> (('w, 'x) process_scheme, configuration) prog" where
  "input_file vm name label set_var cfg = (case vm name of
      Some v \<Rightarrow> seqM (print_line (label @ v)) (ret (set_var v cfg))
    | None \<Rightarrow> seqM (print_error oErrorMessageStr) (ret cfg))"

definition other_option ::
  "variables_map \<Rightarrow> string \<Rightarrow> string option \<Rightarrow> (string \<Rightarrow> configuration \<Rightarrow> configuration)
   \<Rightarrow> configuration \<Rightarrow> (('w, 'x) process_scheme, configuration) prog" where
  "other_option vm name label set_var cfg = (case vm name of
      Some v \<Rightarrow> seqM (case label of Some l \<Rightarrow> print_line (l @ v) | None \<Rightarrow> ret ())
                     (ret (set_var v cfg))
    | None \<Rightarrow> ret cfg)"

definition input_files ::
  "variables_map \<Rightarrow> configuration \<Rightarrow> (('w, 'x) process_scheme, configuration) prog" where
  "input_files vm cfg =
     bindM (input_file vm ''schedule'' ''Schedule input filename is: ''
              (\<lambda>v c. c\<lparr>ioScheduleInputFilename := v\<rparr>) cfg) (\<lambda>cfg.
     bindM (input_file vm ''ond'' ''O&D input filename is: ''
              (\<lambda>v c. c\<lparr>ioOnDInputFilename := v\<rparr>) cfg) (\<lambda>cfg.
     bindM (input_file vm ''frat5'' ''FRAT5 input filename is: ''
              (\<lambda>v c. c\<lparr>ioFRAT5Filename := v\<rparr>) cfg) (\<lambda>cfg.
     bindM (input_file vm ''ff_disutility'' ''FF disutility input filename is: ''
              (\<lambda>v c. c\<lparr>ioFFDisutilityFilename := v\<rparr>) cfg) (\<lambda>cfg.
     bindM (input_file vm ''yield'' ''Yield input filename is: ''
              (\<lambda>v c. c\<lparr>ioYieldInputFilename := v\<rparr>) cfg) (\<lambda>cfg.
     input_file vm ''fare'' ''Fare input filename is: ''
              (\<lambda>v c. c\<lparr>ioFareInputFilename := v\<rparr>) cfg)))))"

definition other_options ::
  "variables_map \<Rightarrow> configuration \<Rightarrow> (('w, 'x) process_scheme, configuration) prog" where
  "other_options vm cfg =
     bindM (other_option vm ''log'' (Some ''Log filename is: '')
              (\<lambda>v c. c\<lparr>ioLogFilename := v\<rparr>) cfg) (\<lambda>cfg.
     bindM (other_option vm ''user'' (Some ''SQL database user name is: '')
              (\<lambda>v c. c\<lparr>ioDBUser := v\<rparr>) cfg) (\<lambda>cfg.
     bindM (other_option vm ''passwd'' None (\<lambda>v c. c\<lparr>ioDBPasswd := v\<rparr>) cfg) (\<lambda>cfg.
     bindM (other_option vm ''host'' (Some ''SQL database host name is: '')
              (\<lambda>v c. c\<lparr>ioDBHost := v\<rparr>) cfg) (\<lambda>cfg.
     bindM (other_option vm ''port'' (Some ''SQL database port number is: '')
              (\<lambda>v c. c\<lparr>ioDBPort := v\<rparr>) cfg) (\<lambda>cfg.
     other_option vm ''dbname'' (Some ''SQL database name is: '')
              (\<lambda>v c. c\<lparr>ioDBDBName := v\<rparr>) cfg)))))"

definition readConfiguration ::
  "build_config \<Rightarrow> 'w batch_api \<Rightarrow> string list \<Rightarrow> configuration
   \<Rightarrow> (('w, 'x) process_scheme, int \<times> configuration) prog" where
  "readConfiguration B P argv cfg =
     (let cfg = cfg\<lparr>ioIsBuiltin := K_SIMCRS_DEFAULT_BUILT_IN_INPUT\<rparr> in
      bindM (on_world (po_parse P (cmdline_options B) (config_file_options B) ''copyright''
               argv cfg)) (\<lambda>(vm, cfg).
      if vm ''help'' \<noteq> None
      then seqM (print_line (po_show P (visible_options B)))
                (ret (K_SIMCRS_EARLY_RETURN_STATUS, cfg))
      else if vm ''version'' \<noteq> None
      then seqM (print_line (PACKAGE_NAME B @ '', version '' @ PACKAGE_VERSION B))
                (ret (K_SIMCRS_EARLY_RETURN_STATUS, cfg))
      else if vm ''prefix'' \<noteq> None
      then seqM (print_line (''Installation prefix: '' @ PREFIXDIR B))
                (ret (K_SIMCRS_EARLY_RETURN_STATUS, cfg))
      else
        let cfg = (if vm ''builtin'' \<noteq> None then cfg\<lparr>ioIsBuiltin := True\<rparr> else cfg);
            isBuiltinStr = (if ioIsBuiltin cfg then ''yes'' else ''no'') in
        seqM (print_line (''The BOM should be built-in? '' @ isBuiltinStr))
       (bindM (if ioIsBuiltin cfg = False then input_files vm cfg else ret cfg) (\<lambda>cfg.
        bindM (other_options vm cfg) (\<lambda>cfg. ret (0, cfg))))))"

section \<open>main\<close>

text \<open>The local variables of \<open>main\<close> at the start; the flag is written before it is read.\<close>

definition empty_configuration :: configuration where
  "empty_configuration = \<lparr>ioIsBuiltin = False, ioScheduleInputFilename = [],
     ioOnDInputFilename = [], ioFRAT5Filename = [], ioFFDisutilityFilename = [],
     ioYieldInputFilename = [], ioFareInputFilename = [], ioLogFilename = [],
     ioDBUser = [], ioDBPasswd = [], ioDBHost = [], ioDBPort = [], ioDBDBName = []\<rparr>"

text \<open>\<open>front()\<close> of an empty list has no meaning.\<close>

definition front :: "'a list \<Rightarrow> ('s, 'a) prog" where
  "front xs = (case xs of [] \<Rightarrow> halt (Undefined Empty_front) | x # _ \<Rightarrow> ret x)"

definition load_inventory ::
  "'w apis \<Rightarrow> configuration \<Rightarrow> simcrs_service \<Rightarrow> (('w, 'x) crs_state_scheme, unit) prog" where
  "load_inventory A cfg simcrsService =
     (if ioIsBuiltin cfg then SIMCRS_buildSampleBom A simcrsService
      else SIMCRS_parseAndLoad A simcrsService (ioScheduleInputFilename cfg)
             (ioOnDInputFilename cfg) (ioFRAT5Filename cfg) (ioFFDisutilityFilename cfg)
             (ioYieldInputFilename cfg) (ioFareInputFilename cfg))"

text \<open>The sale of the first solution with its first fare option, and the closing steps.\<close>

definition book_solution ::
  "'w apis \<Rightarrow> 'w batch_api \<Rightarrow> configuration \<Rightarrow> simcrs_service \<Rightarrow> booking_request
   \<Rightarrow> travel_solution \<Rightarrow> (('w, 'x) crs_state_scheme, int) prog" where
  "book_solution A P cfg simcrsService lBookingRequest lChosenTravelSolution =
     (let lsegmentDateKeyList = segmentPath lChosenTravelSolution;
          lFareOptionList = fareOptionList lChosenTravelSolution in
      if lFareOptionList = []
      then seqM (on_world (log_error (utilA A)
                  (''No fare option for the chosen travel solution: '' @
                   display_solution (utilA A) lChosenTravelSolution)))
                (ret (-1))
      else
        bindM (front lFareOptionList) (\<lambda>lFareOption.
        let lChosenTravelSolution = lChosenTravelSolution\<lparr>chosenFareOption := lFareOption\<rparr> in
        bindM (front lsegmentDateKeyList) (\<lambda>lSegmentDateKey.
        seqM (on_world (log_debug (utilA A)
                (''The chosen travel solution is: '' @ lSegmentDateKey @ '', the fare is: '' @
                 show_fare (utilA A) lFareOption @ '' Euros.'')))
       (bindM (SIMCRS_sell A simcrsService lChosenTravelSolution 3) (\<lambda>isSellSuccessful.
        seqM (on_world (log_debug (utilA A)
                (''Sale ('' @ [CHR 0x27] @ stream_request (utilA A) lBookingRequest @
                 [CHR 0x27] @ ''):  successful? '' @ show_bool isSellSuccessful)))
       (bindM (SIMCRS_csvDisplay A simcrsService) (\<lambda>lCSVDump.
        seqM (on_world (log_debug (utilA A) lCSVDump))
       (seqM (on_world (log_close P (ioLogFilename cfg)))
             (ret 0)))))))))"

definition book_request ::
  "'w apis \<Rightarrow> 'w batch_api \<Rightarrow> configuration \<Rightarrow> simcrs_service
   \<Rightarrow> (('w, 'x) crs_state_scheme, int) prog" where
  "book_request A P cfg simcrsService =
     bindM (SIMCRS_buildSampleBookingRequest A simcrsService True) (\<lambda>lBookingRequest.
     bindM (SIMCRS_calculateSegmentPathList A simcrsService lBookingRequest)
       (\<lambda>lTravelSolutionList.
     if lTravelSolutionList = []
     then seqM (on_world (log_error (utilA A)
                 (''No travel solution has been found for: '' @
                  display_request (utilA A) lBookingRequest)))
               (ret (-1))
     else
       bindM (with_local lTravelSolutionList (SIMCRS_fareQuote A simcrsService lBookingRequest))
         (\<lambda>lTravelSolutionList.
       bindM (front lTravelSolutionList) (\<lambda>lChosenTravelSolution.
       book_solution A P cfg simcrsService lBookingRequest lChosenTravelSolution))))"

text \<open>
  What follows the options: the log file, the service, the inventory and the booking. The
  stream and the service are local variables, so that the destructor of the service and then
  that of the stream run at the end. No exception is caught: C++ leaves open how far the stack
  is unwound then, and the model unwinds it, here as in the constructors of the service.
\<close>

definition run_batch ::
  "'w apis \<Rightarrow> 'w batch_api \<Rightarrow> configuration \<Rightarrow> (('w, 'x) crs_state_scheme, int) prog" where
  "run_batch A P cfg =
     (let lCRSCode = ''1P'';
          lDBParams = \<lparr>dbUser = ioDBUser cfg, dbPasswd = ioDBPasswd cfg, dbHost = ioDBHost cfg,
                       dbPort = ioDBPort cfg, dbName = ioDBDBName cfg\<rparr>;
          lLogParams = \<lparr>logLevel = ''DEBUG'', logStream = ioLogFilename cfg\<rparr> in
      finally_world (log_destroy P (ioLogFilename cfg))
       (seqM (on_world (log_open P (ioLogFilename cfg)))
       (bindM (SIMCRS_Service_log A lLogParams lCRSCode) (\<lambda>simcrsService.
        with_service A simcrsService
         (seqM (load_inventory A cfg simcrsService)
               (book_request A P cfg simcrsService))))))"

definition simcrs_main ::
  "build_config \<Rightarrow> 'w apis \<Rightarrow> 'w batch_api \<Rightarrow> string list
   \<Rightarrow> (('w, 'x) process_scheme, int) prog" where
  "simcrs_main B A P argv =
     bindM (readConfiguration B P argv empty_configuration) (\<lambda>(lOptionParserStatus, cfg).
     if lOptionParserStatus = K_SIMCRS_EARLY_RETURN_STATUS then ret 0
     else run_batch A P cfg)"

section \<open>Lemmas\<close>

lemma print_run [simp]:
  "print_line t s = (Ret (), s\<lparr>cout := cout s @ t @ [CHR 0x0A]\<rparr>)"
  "print_error t s = (Ret (), s\<lparr>cerr := cerr s @ t @ [CHR 0x0A]\<rparr>)"
  by (simp_all add: print_line_def print_error_def)

lemma front_simps [simp]:
  "front [] = halt (Undefined Empty_front)" "front (x # xs) = ret x"
  by (simp_all add: front_def)

lemma keeps_front [keeps_intros]: "keeps g (front xs)"
  by (cases xs) (auto intro!: keeps_intros)

lemma truncate_print [simp]:
  "mem.truncate (s\<lparr>cout := t\<rparr>) = mem.truncate s" "mem.truncate (s\<lparr>cerr := t\<rparr>) = mem.truncate s"
  by (simp_all add: mem.defs)

lemma keeps_print [keeps_intros]:
  "(\<And>s t. g (s\<lparr>cout := t\<rparr>) = g s) \<Longrightarrow> keeps g (print_line x)"
  "(\<And>s t. g (s\<lparr>cerr := t\<rparr>) = g s) \<Longrightarrow> keeps g (print_error x)"
  by (simp_all add: keeps_def)

lemma keeps_options [keeps_intros]:
  assumes "\<And>s t. g (s\<lparr>cout := t\<rparr>) = g s" "\<And>s t. g (s\<lparr>cerr := t\<rparr>) = g s"
  shows "keeps g (input_file vm name label f cfg)" "keeps g (other_option vm name lab f cfg)"
  unfolding input_file_def other_option_def
  by (auto intro!: keeps_intros assms split: option.split)

lemma keeps_readConfiguration:
  "keeps mem.truncate (readConfiguration B P argv cfg)"
  unfolding readConfiguration_def input_files_def other_options_def Let_def
  by (auto intro!: keeps_intros)

text \<open>Every method called by the batch program is one of the public methods.\<close>

lemma keeps_methods:
  assumes "\<And>s w. g (s\<lparr>world := w\<rparr>) = g s"
  shows "keeps g (SIMCRS_buildSampleBom A this)"
    "keeps g (SIMCRS_parseAndLoad A this f h i j k l)"
    "keeps g (SIMCRS_buildSampleBookingRequest A this b)"
    "keeps g (SIMCRS_calculateSegmentPathList A this q)"
    "keeps g (with_local ts (SIMCRS_fareQuote A this q))"
    "keeps g (SIMCRS_sell A this t n)"
    "keeps g (SIMCRS_csvDisplay A this)"
  by (auto simp: method_defs SIMCRS_buildComplementaryLinks_def assms
      intro!: keeps_intros keeps_clone)

lemma keeps_load_inventory: "keeps mem.truncate (load_inventory A cfg this)"
  unfolding load_inventory_def by (intro keeps_intros keeps_methods) simp_all

lemma keeps_book_request: "keeps mem.truncate (book_request A P cfg this)"
  unfolding book_request_def book_solution_def Let_def
  by (intro keeps_intros keeps_methods) simp_all

text \<open>
  What a program is to do to the memory: it does not stop unless the program inside does, and
  gives back every reference that it took.
\<close>

definition releases :: "('x mem_scheme, 'a) prog \<Rightarrow> bool" where
  "releases m \<longleftrightarrow> (\<forall>s r t. mem_ok s \<longrightarrow> m s = (r, t) \<longrightarrow> \<not> is_halt r \<longrightarrow>
     mem_ok t \<and> (\<forall>x. held_refs x t = held_refs x s))"

lemma releases_keeps: "keeps mem.truncate m \<Longrightarrow> releases m"
  unfolding releases_def using keepsD same_memory by metis

lemma releases_bindM:
  assumes "releases m" "\<And>x. releases (f x)"
  shows "releases (bindM m f)"
  unfolding releases_def
proof (intro allI impI)
  fix s r t
  assume ok: "mem_ok s" and run: "bindM m f s = (r, t)" and nohalt: "\<not> is_halt r"
  obtain q u where m: "m s = (q, u)" by fastforce
  have first: "mem_ok u \<and> (\<forall>x. held_refs x u = held_refs x s)" if "\<not> is_halt q"
    using assms(1) ok m that unfolding releases_def by blast
  show "mem_ok t \<and> (\<forall>x. held_refs x t = held_refs x s)"
  proof (cases q)
    case (Ret y)
    then have "f y u = (r, t)" using run m by (simp add: bindM_cases)
    then show ?thesis using first Ret assms(2) [of y] nohalt unfolding releases_def by fastforce
  qed (use run m first nohalt in \<open>auto simp: bindM_cases\<close>)
qed

lemma releases_finally_world:
  fixes m :: "(('w, 'x) crs_state_scheme, 'a) prog"
  assumes "releases m"
  shows "releases (finally_world f m)"
  unfolding releases_def
proof (intro allI impI)
  fix s :: "('w, 'x) crs_state_scheme" and r t
  assume ok: "mem_ok s" and run: "finally_world f m s = (r, t)" and "\<not> is_halt r"
  from run obtain u w where "m s = (r, u)" "t = u\<lparr>world := w\<rparr>" by (rule finally_world_any)
  with assms ok \<open>\<not> is_halt r\<close> show "mem_ok t \<and> (\<forall>x. held_refs x t = held_refs x s)"
    unfolding releases_def by simp
qed

lemma service_block:
  assumes ok: "mem_ok s" and u: "SIMCRS_Service_log A lp crs s = (Ret this, u)"
    and body: "keeps mem.truncate body" and run: "with_service A this body u = (r, t)"
    and nohalt: "\<not> is_halt r"
  shows "mem_ok t \<and> (\<forall>x. held_refs x t = held_refs x s)"
proof -
  obtain c where c: "constructed s crs this u c"
    using constructor_adds_one(1) [OF ok u] by blast
  obtain q v where v: "body u = (q, v)" by fastforce
  obtain t' where t': "SIMCRS_Service_destroy A this v = (Ret (), t')" "mem_ok t'"
    "\<And>x. held_refs x t' = held_refs x s"
    using destroy_undoes [OF ok c keepsD [OF body v]] by blast
  show ?thesis
    using run v t' nohalt by (cases q) (auto simp: with_service_def seqM_cases)
qed

lemma service_block_releases:
  assumes mk: "makes_return A" and body: "\<And>this. keeps mem.truncate (body this)"
  shows "releases (bindM (SIMCRS_Service_log A lp crs) (\<lambda>this. with_service A this (body this)))"
  unfolding releases_def
proof (intro allI impI)
  fix s r t
  assume ok: "mem_ok s" and nohalt: "\<not> is_halt r"
    and run: "bindM (SIMCRS_Service_log A lp crs) (\<lambda>this. with_service A this (body this)) s = (r, t)"
  obtain this u where u: "SIMCRS_Service_log A lp crs s = (Ret this, u)"
    by (rule log_constructor_serves [OF ok mk])
  with run have "with_service A this (body this) u = (r, t)" by (simp add: bindM_cases)
  from service_block [OF ok u body this nohalt]
  show "mem_ok t \<and> (\<forall>x. held_refs x t = held_refs x s)" .
qed

lemma keeps_serving:
  "keeps mem.truncate (seqM (load_inventory A cfg this) (book_request A P cfg this))"
  by (intro keeps_intros keeps_load_inventory keeps_book_request)

lemma run_batch_releases:
  assumes "makes_return A"
  shows "releases (run_batch A P cfg)"
  unfolding run_batch_def Let_def seqM_def
  by (intro releases_finally_world releases_bindM releases_keeps service_block_releases assms
      keeps_intros keeps_load_inventory keeps_book_request) simp_all

lemma run_batch_refs:
  assumes ok: "mem_ok s" and run: "run_batch A P cfg s = (Ret r, t)"
  shows "mem_ok t \<and> (\<forall>x. held_refs x t = held_refs x s)"
proof -
  obtain v where v: "seqM (on_world (log_open P (ioLogFilename cfg)))
      (bindM (SIMCRS_Service_log A \<lparr>logLevel = ''DEBUG'', logStream = ioLogFilename cfg\<rparr> ''1P'')
        (\<lambda>this. with_service A this
          (seqM (load_inventory A cfg this) (book_request A P cfg this)))) s = (Ret r, v)"
    "t = v\<lparr>world := log_destroy P (ioLogFilename cfg) (world v)\<rparr>"
    using run by (auto simp: run_batch_def Let_def)
  obtain w this u where u: "SIMCRS_Service_log A
      \<lparr>logLevel = ''DEBUG'', logStream = ioLogFilename cfg\<rparr> ''1P'' (s\<lparr>world := w\<rparr>) = (Ret this, u)"
    "with_service A this (seqM (load_inventory A cfg this) (book_request A P cfg this)) u
      = (Ret r, v)"
    using v(1) unfolding seqM_eq_Ret_iff [of "on_world m" for m] bindM_eq_Ret_iff on_world_Ret_iff
    by blast
  from service_block [OF _ u(1) keeps_serving u(2)] ok show ?thesis by (simp add: v(2))
qed

lemma input_file_run:
  "input_file vm name label f cfg s = (Ret (case vm name of Some v \<Rightarrow> f v cfg | None \<Rightarrow> cfg),
     case vm name of Some v \<Rightarrow> s\<lparr>cout := cout s @ (label @ v) @ [CHR 0x0A]\<rparr>
     | None \<Rightarrow> s\<lparr>cerr := cerr s @ oErrorMessageStr @ [CHR 0x0A]\<rparr>)"
  by (simp add: input_file_def seqM_cases split: option.split)

lemma other_option_run:
  "\<exists>t. other_option vm name lab f cfg s =
     (Ret (case vm name of Some v \<Rightarrow> f v cfg | None \<Rightarrow> cfg), t) \<and> cerr t = cerr s"
  by (auto simp: other_option_def seqM_cases split: option.split)

definition file_options :: "string list" where
  "file_options = [''schedule'', ''ond'', ''frat5'', ''ff_disutility'', ''yield'', ''fare'']"

definition pick :: "variables_map \<Rightarrow> string \<Rightarrow> string \<Rightarrow> string" where
  "pick vm k old = (case vm k of Some v \<Rightarrow> v | None \<Rightarrow> old)"

definition files_config :: "variables_map \<Rightarrow> configuration \<Rightarrow> configuration" where
  "files_config vm c = c\<lparr>
     ioScheduleInputFilename := pick vm ''schedule'' (ioScheduleInputFilename c),
     ioOnDInputFilename := pick vm ''ond'' (ioOnDInputFilename c),
     ioFRAT5Filename := pick vm ''frat5'' (ioFRAT5Filename c),
     ioFFDisutilityFilename := pick vm ''ff_disutility'' (ioFFDisutilityFilename c),
     ioYieldInputFilename := pick vm ''yield'' (ioYieldInputFilename c),
     ioFareInputFilename := pick vm ''fare'' (ioFareInputFilename c)\<rparr>"

definition others_config :: "variables_map \<Rightarrow> configuration \<Rightarrow> configuration" where
  "others_config vm c = c\<lparr>
     ioLogFilename := pick vm ''log'' (ioLogFilename c),
     ioDBUser := pick vm ''user'' (ioDBUser c),
     ioDBPasswd := pick vm ''passwd'' (ioDBPasswd c),
     ioDBHost := pick vm ''host'' (ioDBHost c),
     ioDBPort := pick vm ''port'' (ioDBPort c),
     ioDBDBName := pick vm ''dbname'' (ioDBDBName c)\<rparr>"

definition missing_files :: "variables_map \<Rightarrow> nat" where
  "missing_files vm = length (filter (\<lambda>k. vm k = None) file_options)"

lemma input_files_run:
  "\<exists>t. input_files vm c s = (Ret (files_config vm c), t) \<and>
     cerr t = cerr s @ concat (replicate (missing_files vm) (oErrorMessageStr @ [CHR 0x0A]))"
  by (cases "vm ''schedule''"; cases "vm ''ond''"; cases "vm ''frat5''";
      cases "vm ''ff_disutility''"; cases "vm ''yield''"; cases "vm ''fare''")
    (simp_all add: input_files_def bindM_cases input_file_run missing_files_def
      file_options_def files_config_def pick_def)

lemma other_option_cerr: "keeps cerr (other_option vm name lab f c)"
  unfolding other_option_def by (auto intro!: keeps_intros split: option.split)

lemma other_options_run:
  "\<exists>t. other_options vm c s = (Ret (others_config vm c), t) \<and> cerr t = cerr s"
proof -
  have "fst (other_options vm c s) = Ret (others_config vm c)"
    by (cases "vm ''log''"; cases "vm ''user''"; cases "vm ''passwd''"; cases "vm ''host''";
        cases "vm ''port''"; cases "vm ''dbname''")
      (simp_all add: other_options_def bindM_cases seqM_cases other_option_def others_config_def
        pick_def)
  moreover have "keeps cerr (other_options vm c)"
    unfolding other_options_def by (intro keeps_intros other_option_cerr)
  ultimately show ?thesis
    using keeps_snd by (metis prod.collapse)
qed

text \<open>What \<open>readConfiguration\<close> returns when the program is to go on.\<close>

definition proceeds :: "variables_map \<Rightarrow> configuration \<Rightarrow> bool" where
  "proceeds vm cfg \<longleftrightarrow> vm ''help'' = None \<and> vm ''version'' = None \<and> vm ''prefix'' = None \<and>
     \<not> ioIsBuiltin cfg"

lemma readConfiguration_run:
  assumes "po_parse P (cmdline_options B) (config_file_options B) ''copyright'' argv
      (c\<lparr>ioIsBuiltin := False\<rparr>) (world s) = (Ret (vm, cfg), w)"
    and "proceeds vm cfg"
  shows "\<exists>t. readConfiguration B P argv c s = (Ret (0, others_config vm
      (if vm ''builtin'' \<noteq> None then cfg\<lparr>ioIsBuiltin := True\<rparr> else files_config vm cfg)), t) \<and>
    cerr t = cerr s @ (if vm ''builtin'' \<noteq> None then []
      else concat (replicate (missing_files vm) (oErrorMessageStr @ [CHR 0x0A])))"
proof (cases "vm ''builtin''")
  case None
  let ?s = "s\<lparr>world := w, cout := cout s @ ''The BOM should be built-in? no'' @ [CHR 0x0A]\<rparr>"
  obtain u where u: "input_files vm cfg ?s = (Ret (files_config vm cfg), u)"
    "cerr u = cerr s @ concat (replicate (missing_files vm) (oErrorMessageStr @ [CHR 0x0A]))"
    using input_files_run [of vm cfg ?s] by auto
  obtain t where "other_options vm (files_config vm cfg) u
      = (Ret (others_config vm (files_config vm cfg)), t)" "cerr t = cerr u"
    using other_options_run by blast
  with u None assms show ?thesis
    by (simp add: readConfiguration_def K_SIMCRS_DEFAULT_BUILT_IN_INPUT_def proceeds_def
        bindM_cases seqM_cases on_world_def Let_def)
next
  case (Some b)
  let ?s = "s\<lparr>world := w, cout := cout s @ ''The BOM should be built-in? yes'' @ [CHR 0x0A]\<rparr>"
  obtain t where "other_options vm (cfg\<lparr>ioIsBuiltin := True\<rparr>) ?s
      = (Ret (others_config vm (cfg\<lparr>ioIsBuiltin := True\<rparr>)), t)" "cerr t = cerr ?s"
    using other_options_run by blast
  with Some assms show ?thesis
    by (simp add: readConfiguration_def K_SIMCRS_DEFAULT_BUILT_IN_INPUT_def proceeds_def
        bindM_cases seqM_cases on_world_def Let_def)
qed

text \<open>The options and the log file return or throw.\<close>

definition quiet_batch :: "'w batch_api \<Rightarrow> bool" where
  "quiet_batch P \<longleftrightarrow> (\<forall>f. no_halt (log_open P f)) \<and> (\<forall>f. no_halt (log_close P f)) \<and>
     (\<forall>x y z l c. no_halt (po_parse P x y z l c))"

section \<open>A sample run\<close>

definition sample_batch :: "variables_map \<Rightarrow> echo batch_api" where
  "sample_batch vm = \<lparr>po_parse = (\<lambda>_ _ _ _ cfg. ret (vm, cfg)), po_show = (\<lambda>_. ''options''),
     log_open = (\<lambda>_. note_call ''log.open'' 0 ()), log_close = (\<lambda>_. note_call ''log.close'' 0 ()),
     log_destroy = (\<lambda>_ (l, n). (l @ [(''log.gone'', 0)], n))\<rparr>"

definition sample_build :: build_config where
  "sample_build = \<lparr>STDAIR_SAMPLE_DIR = ''/samples'', PACKAGE_NAME = ''simcrs'',
     PACKAGE_VERSION = ''1.01'', PREFIXDIR = ''/usr''\<rparr>"

definition sample_process :: "echo process" where
  "sample_process = \<lparr>supervisorInstance = None, ctxFactoryInstance = None,
     supervisors = Map.empty, serviceFactories = Map.empty, bomFactories = Map.empty,
     contexts = Map.empty, boms = Map.empty, nextAddr = 0, world = ([], 0), cout = [],
     cerr = []\<rparr>"

definition default_options :: variables_map where
  "default_options = [''schedule'' \<mapsto> ''s.csv'', ''ond'' \<mapsto> ''o.csv'', ''frat5'' \<mapsto> ''F.csv'',
     ''ff_disutility'' \<mapsto> ''D.csv'', ''yield'' \<mapsto> ''y.csv'', ''fare'' \<mapsto> ''f.csv'']"

lemma mem_ok_process [simp]: "mem_ok sample_process"
  by (simp add: sample_process_def mem_ok_def service_layer_ok_def singletons_ok_def
      fresh_ok_def)

lemma sample_parse: "po_parse (sample_batch vm) x y z l c w = (Ret (vm, c), w)"
  by (simp add: sample_batch_def)

definition one_solution :: travel_solution where
  "one_solution = \<lparr>segmentPath = [''BA1''], classObjectIDMapHolder = [[''Y'' \<mapsto> 5]],
     fareOptionList = [\<lparr>classPath = [''Y''], fareOptionRest = []\<rparr>],
     chosenFareOption = \<lparr>classPath = [], fareOptionRest = []\<rparr>, travelSolutionRest = []\<rparr>"

lemmas booking_defs = method_defs checked_context_cases bindM_cases seqM_cases on_world_def
  getter_defs getOwnStdairServiceFlag_def book_request_def book_solution_def with_local_def
  beside_ref_def on_world_ref_def log_measure_def display_def shortDisplay_def Let_def

lemmas block_defs = finally_world_def finally_do_def with_service_def with_copy_run
  with_sptr_def pass_sptr_def assign_sptr_def reset_eq

text \<open>A whole run, from the options to the destructor, with the calls it makes in order.\<close>

lemma sample_main:
  "\<exists>t. simcrs_main sample_build (echo_apis (\<lambda>_. True) [one_solution])
     (sample_batch [''builtin'' \<mapsto> []]) [] sample_process = (Ret 0, t) \<and>
   map fst (fst (world t)) = [''log.open'', ''stdair'', ''simfqt'', ''airtsp'', ''airinv'',
     ''persistentBomRoot'', ''stdair.sample'', ''airtsp.sample'', ''airinv.sample'',
     ''simfqt.sample'', ''stdair.clone'', ''airtsp.clone'', ''airinv.clone'', ''simfqt.clone'',
     ''bomRoot'', ''stdair.request'', ''airtsp.paths'', ''simfqt.quote'', ''airinv.sell'',
     ''bomRoot'', ''stdair.csv'', ''log.close'', ''log.gone'']"
  by (simp add: simcrs_main_def readConfiguration_def sample_batch_def sample_process_def
      run_batch_def empty_configuration_def K_SIMCRS_DEFAULT_BUILT_IN_INPUT_def
      K_SIMCRS_EARLY_RETURN_STATUS_def other_options_def other_option_def
      SIMCRS_Service_log_def init_defs creation_defs setter_defs load_def load_inventory_def
      SIMCRS_buildComplementaryLinks_def booking_defs one_solution_def
      DistributionManager_sell_def echo_apis_def SIMCRS_Service_destroy_def finalise_def
      block_defs)

section \<open>Properties\<close>

text \<open>
  The option tables are consistent: no long name and no letter is declared twice on the
  command line, no two options write the same variable, and what a configuration file accepts
  and what the help shows is accepted on the command line.
\<close>

lemma option_tables_consistent:
  "distinct (map longName (cmdline_options B)) \<and>
   distinct (List.map_filter letter (cmdline_options B)) \<and>
   distinct (List.map_filter (\<lambda>d. case semantic d of Bound v _ \<Rightarrow> Some v | _ \<Rightarrow> None)
     (cmdline_options B)) \<and>
   set (config_file_options B) \<union> set (visible_options B) = set (cmdline_options B)"
  by (auto simp: cmdline_options_def config_file_options_def visible_options_def
      generic_options_def config_options_def hidden_options_def opt_def List.map_filter_simps)

text \<open>
  \<open>--help\<close>, \<open>--version\<close> and \<open>--prefix\<close>, in this order of precedence, end the program with
  status 0 after one line on the standard output; no service is constructed and nothing else
  happens after the options have been parsed.
\<close>

lemma main_early_return:
  assumes "po_parse P (cmdline_options B) (config_file_options B) ''copyright'' argv
      empty_configuration (world s) = (Ret (vm, cfg), w)"
    and "vm ''help'' \<noteq> None \<or> vm ''version'' \<noteq> None \<or> vm ''prefix'' \<noteq> None"
  shows "simcrs_main B A P argv s = (Ret 0, s\<lparr>world := w, cout := cout s @
    (if vm ''help'' \<noteq> None then po_show P (visible_options B)
     else if vm ''version'' \<noteq> None then PACKAGE_NAME B @ '', version '' @ PACKAGE_VERSION B
     else ''Installation prefix: '' @ PREFIXDIR B) @ [CHR 0x0A]\<rparr>)"
proof -
  have "empty_configuration\<lparr>ioIsBuiltin := K_SIMCRS_DEFAULT_BUILT_IN_INPUT\<rparr>
      = empty_configuration"
    by (simp add: empty_configuration_def K_SIMCRS_DEFAULT_BUILT_IN_INPUT_def)
  with assms show ?thesis
    by (auto simp: simcrs_main_def readConfiguration_def bindM_cases seqM_cases on_world_def)
qed

text \<open>
  A missing input file is reported but not refused: with files to read (no \<open>--builtin\<close>),
  \<open>readConfiguration\<close> returns 0 in every case and prints its error message once for each of
  the six file options without a value.
\<close>

lemma missing_files_reported:
  assumes "po_parse P (cmdline_options B) (config_file_options B) ''copyright'' argv
      (c\<lparr>ioIsBuiltin := False\<rparr>) (world s) = (Ret (vm, cfg), w)"
    and "proceeds vm cfg" and "vm ''builtin'' = None"
  shows "\<exists>cfg' t. readConfiguration B P argv c s = (Ret (0, cfg'), t) \<and>
    cerr t = cerr s @ concat (replicate (missing_files vm) (oErrorMessageStr @ [CHR 0x0A]))"
  using readConfiguration_run [OF assms(1,2)] assms(3) by auto

text \<open>
  With \<open>--builtin\<close> the files do not matter: whatever the other options say, the inventory
  is the sample one and no error message is printed.
\<close>

lemma builtin_ignores_files:
  assumes "po_parse P (cmdline_options B) (config_file_options B) ''copyright'' argv
      (c\<lparr>ioIsBuiltin := False\<rparr>) (world s) = (Ret (vm, cfg), w)"
    and "proceeds vm cfg" and "vm ''builtin'' = Some b"
  shows "\<exists>cfg' t. readConfiguration B P argv c s = (Ret (0, cfg'), t) \<and> cerr t = cerr s \<and>
    (\<forall>A service. load_inventory A cfg' service = SIMCRS_buildSampleBom A service)"
  using readConfiguration_run [OF assms(1,2)] assms(3)
  by (auto simp: load_inventory_def others_config_def)

text \<open>
  The program has no other exit status than 0 and -1 when it returns.
\<close>

lemma main_status:
  assumes "simcrs_main B A P argv s = (Ret r, t)"
  shows "r = 0 \<or> r = -1"
  using assms
  by (auto simp: simcrs_main_def run_batch_def book_request_def book_solution_def Let_def
      bindM_eq_Ret_iff seqM_eq_Ret_iff with_service_Ret_iff split: if_splits prod.splits)

text \<open>
  The program gives back every service it has created: when it returns, whatever its
  status, each external service is referred to by exactly as many contexts as at the start,
  and the factories' memory is well formed. The same holds when it ends with an exception, as
  long as the constructors of the other components return.
\<close>

lemma main_releases_services:
  assumes "mem_ok s" and "simcrs_main B A P argv s = (r, t)"
    and "(\<exists>status. r = Ret status) \<or> (\<exists>e. r = Throw e) \<and> makes_return A"
  shows "mem_ok t \<and> (\<forall>x. held_refs x t = held_refs x s)"
proof -
  obtain q u where
    u: "readConfiguration B P argv empty_configuration s = (q, u)" by fastforce
  note same = same_memory [OF keepsD [OF keeps_readConfiguration u]]
  have ok: "mem_ok u" using same(1) assms(1) by simp
  show ?thesis
  proof (cases q)
    case (Ret x)
    obtain status cfg where x: "x = (status, cfg)" by (cases x)
    have t: "(if status = K_SIMCRS_EARLY_RETURN_STATUS then ret 0 else run_batch A P cfg) u = (r, t)"
      using assms(2) u Ret x by (simp add: simcrs_main_def bindM_cases)
    show ?thesis
    proof (cases r)
      case status: (Ret y)
      show ?thesis
        using t run_batch_refs [OF ok] same(3) assms(1) ok status by (auto split: if_splits)
    next
      case (Throw e)
      then have "releases (run_batch A P cfg)" using assms(3) run_batch_releases by blast
      with t Throw ok same(3) show ?thesis
        unfolding releases_def by (fastforce split: if_splits)
    qed (use assms(3) in simp)
  qed (use assms(2) u same ok in \<open>simp_all add: simcrs_main_def bindM_cases\<close>)
qed

lemma main_releases_services_witness:
  "\<exists>t. simcrs_main sample_build (echo_apis (\<lambda>_. True) [one_solution])
     (sample_batch [''builtin'' \<mapsto> []]) [] sample_process = (Ret 0, t) \<and>
     held_refs 0 t = held_refs 0 sample_process"
  using sample_main main_releases_services [OF mem_ok_process] by blast

text \<open>
  The database options have no effect: the program goes on in exactly the same way for
  any two configurations that differ only in the database user, password, host, port and name.
\<close>

lemma db_options_unused:
  "run_batch A P (cfg\<lparr>ioDBUser := u, ioDBPasswd := pw, ioDBHost := h, ioDBPort := n,
     ioDBDBName := d\<rparr>) = run_batch A P cfg"
  by (simp add: run_batch_def Let_def load_inventory_def book_request_def book_solution_def
      cong: if_cong)

text \<open>
  Without any travel solution for the sample request the program logs an error and gives
  up with -1; neither fares nor seats are asked for.
\<close>

lemma no_solution_gives_up:
  assumes "SIMCRS_buildSampleBookingRequest A this True s = (Ret q, u)"
    and "SIMCRS_calculateSegmentPathList A this q u = (Ret [], v)"
  shows "book_request A P cfg this s = seqM (on_world (log_error (utilA A)
    (''No travel solution has been found for: '' @ display_request (utilA A) q))) (ret (-1)) v"
  using assms by (simp add: book_request_def bindM_cases)

text \<open>
  Otherwise the first solution of the fare quote decides, not the cheapest nor an
  available one: if it has no fare option the program gives up with -1; if it has, the first
  one is chosen and a sale for three persons is asked for, whatever its seats or price.
\<close>

lemma first_solution_decides:
  assumes "SIMCRS_buildSampleBookingRequest A this True s = (Ret q, u)"
    and "SIMCRS_calculateSegmentPathList A this q u = (Ret ts, v)" and "ts \<noteq> []"
    and "with_local ts (SIMCRS_fareQuote A this q) v = (Ret (t # us), w)"
  shows "(fareOptionList t = [] \<longrightarrow>
      book_request A P cfg this s = seqM (on_world (log_error (utilA A)
        (''No fare option for the chosen travel solution: '' @ display_solution (utilA A) t)))
        (ret (-1)) w) \<and>
    (\<forall>fo fos k ks. fareOptionList t = fo # fos \<longrightarrow> segmentPath t = k # ks \<longrightarrow>
      book_request A P cfg this s = seqM (on_world (log_debug (utilA A)
        (''The chosen travel solution is: '' @ k @ '', the fare is: '' @
         show_fare (utilA A) fo @ '' Euros.'')))
       (bindM (SIMCRS_sell A this (t\<lparr>chosenFareOption := fo\<rparr>) 3) (\<lambda>sold.
        seqM (on_world (log_debug (utilA A)
          (''Sale ('' @ [CHR 0x27] @ stream_request (utilA A) q @ [CHR 0x27] @
           ''):  successful? '' @ show_bool sold)))
       (bindM (SIMCRS_csvDisplay A this) (\<lambda>csv.
        seqM (on_world (log_debug (utilA A) csv))
       (seqM (on_world (log_close P (ioLogFilename cfg))) (ret 0)))))) w)"
  using assms by (simp add: book_request_def book_solution_def bindM_cases)

end
