(* ===== verification/CRS_Program.thy ===== *)
theory CRS_Program
  imports CRS_Batch CRS_Process
begin

text \<open>
  What the whole batch program does to the outside world: \<open>spec_main\<close> is a program on the
  external components and the two output texts alone, with no service object, no context and
  no factory in it. \<open>simcrs_main\<close> is shown to be indistinguishable from it, whatever the
  external components do, from every well-formed memory.
\<close>

section \<open>The text of the options\<close>

definition line :: "string \<Rightarrow> string" where
  "line t = t @ [CHR 0x0A]"

definition file_labels :: "(string \<times> string) list" where
  "file_labels = [(''schedule'', ''Schedule input filename is: ''),
     (''ond'', ''O&D input filename is: ''), (''frat5'', ''FRAT5 input filename is: ''),
     (''ff_disutility'', ''FF disutility input filename is: ''),
     (''yield'', ''Yield input filename is: ''), (''fare'', ''Fare input filename is: '')]"

definition other_labels :: "(string \<times> string) list" where
  "other_labels = [(''log'', ''Log filename is: ''),
     (''user'', ''SQL database user name is: ''), (''host'', ''SQL database host name is: ''),
     (''port'', ''SQL database port number is: ''), (''dbname'', ''SQL database name is: '')]"

definition found :: "variables_map \<Rightarrow> (string \<times> string) list \<Rightarrow> string" where
  "found vm ls = concat (map (\<lambda>(k, l). case vm k of None \<Rightarrow> [] | Some v \<Rightarrow> line (l @ v)) ls)"

definition missing :: "variables_map \<Rightarrow> (string \<times> string) list \<Rightarrow> string" where
  "missing vm ls =
     concat (map (\<lambda>(k, l). case vm k of None \<Rightarrow> line oErrorMessageStr | Some v \<Rightarrow> []) ls)"

definition early_text :: "build_config \<Rightarrow> 'w batch_api \<Rightarrow> variables_map \<Rightarrow> string option" where
  "early_text B P vm =
     (if vm ''help'' \<noteq> None then Some (po_show P (visible_options B))
      else if vm ''version'' \<noteq> None
      then Some (PACKAGE_NAME B @ '', version '' @ PACKAGE_VERSION B)
      else if vm ''prefix'' \<noteq> None then Some (''Installation prefix: '' @ PREFIXDIR B)
      else None)"

text \<open>The outside world of the program: the components, the standard output, the errors.\<close>

type_synonym 'w outside = "'w \<times> string \<times> string"

definition spec_options ::
  "build_config \<Rightarrow> 'w batch_api \<Rightarrow> string list \<Rightarrow> configuration
   \<Rightarrow> ('w outside, int \<times> configuration) prog" where
  "spec_options B P argv c0 = (\<lambda>(w, out, err).
     (case po_parse P (cmdline_options B) (config_file_options B) ''copyright'' argv
         (c0\<lparr>ioIsBuiltin := False\<rparr>) w of
        (Throw e, w') \<Rightarrow> (Throw e, w', out, err)
      | (Halt b, w') \<Rightarrow> (Halt b, w', out, err)
      | (Ret (vm, c), w') \<Rightarrow>
          (case early_text B P vm of
             Some t \<Rightarrow> (Ret (K_SIMCRS_EARLY_RETURN_STATUS, c), w', out @ line t, err)
           | None \<Rightarrow>
               if vm ''builtin'' \<noteq> None \<or> ioIsBuiltin c
               then (Ret (0, others_config vm (c\<lparr>ioIsBuiltin := True\<rparr>)), w',
                     out @ line ''The BOM should be built-in? yes'' @ found vm other_labels, err)
               else (Ret (0, others_config vm (files_config vm c)), w',
                     out @ line ''The BOM should be built-in? no'' @ found vm file_labels @
                       found vm other_labels, err @ missing vm file_labels))))"

lemma input_files_exact:
  "input_files vm c s = (Ret (files_config vm c),
     s\<lparr>cout := cout s @ found vm file_labels, cerr := cerr s @ missing vm file_labels\<rparr>)"
  by (cases "vm ''schedule''"; cases "vm ''ond''"; cases "vm ''frat5''";
      cases "vm ''ff_disutility''"; cases "vm ''yield''"; cases "vm ''fare''")
    (simp_all add: input_files_def bindM_cases input_file_run file_labels_def found_def
      missing_def line_def files_config_def pick_def)

lemma missing_replicate:
  "missing vm file_labels = concat (replicate (missing_files vm) (line oErrorMessageStr))"
  by (cases "vm ''schedule''"; cases "vm ''ond''"; cases "vm ''frat5''";
      cases "vm ''ff_disutility''"; cases "vm ''yield''"; cases "vm ''fare''")
    (simp_all add: missing_def missing_files_def file_labels_def file_options_def)

lemma other_options_exact:
  "other_options vm c s = (Ret (others_config vm c), s\<lparr>cout := cout s @ found vm other_labels\<rparr>)"
  by (cases "vm ''log''"; cases "vm ''user''"; cases "vm ''passwd''"; cases "vm ''host''";
      cases "vm ''port''"; cases "vm ''dbname''")
    (simp_all add: other_options_def bindM_cases seqM_cases other_option_def other_labels_def
      found_def line_def others_config_def pick_def)

definition outside :: "('w, 'x) process_scheme \<Rightarrow> 'w outside" where
  "outside s = (world s, cout s, cerr s)"

definition with_outside :: "'w outside \<Rightarrow> ('w, 'x) process_scheme \<Rightarrow> ('w, 'x) process_scheme" where
  "with_outside v s = (case v of (w, out, err) \<Rightarrow> s\<lparr>world := w, cout := out, cerr := err\<rparr>)"

lemma builtin_already [simp]: "ioIsBuiltin c \<Longrightarrow> c\<lparr>ioIsBuiltin := True\<rparr> = c"
  by (cases c) simp

lemma readConfiguration_exact:
  "readConfiguration B P argv c0 s = (case spec_options B P argv c0 (outside s) of
     (r, v) \<Rightarrow> (r, with_outside v s))"
proof -
  obtain r w where parse: "po_parse P (cmdline_options B) (config_file_options B) ''copyright''
      argv (c0\<lparr>ioIsBuiltin := False\<rparr>) (world s) = (r, w)"
    by (cases "po_parse P (cmdline_options B) (config_file_options B) ''copyright'' argv
      (c0\<lparr>ioIsBuiltin := False\<rparr>) (world s)")
  show ?thesis
  proof (cases r)
    case (Ret x)
    obtain vm c where x: "x = (vm, c)" by (cases x)
    show ?thesis
      using parse Ret
      by (auto simp: x readConfiguration_def spec_options_def K_SIMCRS_DEFAULT_BUILT_IN_INPUT_def
          early_text_def outside_def with_outside_def on_world_def bindM_cases seqM_cases Let_def
          input_files_exact other_options_exact line_def)
  qed (use parse in \<open>simp_all add: readConfiguration_def spec_options_def
      K_SIMCRS_DEFAULT_BUILT_IN_INPUT_def outside_def with_outside_def on_world_def
      bindM_cases\<close>)
qed

section \<open>The service and the booking\<close>

definition spec_load :: "'w apis \<Rightarrow> configuration \<Rightarrow> crew \<Rightarrow> ('w, unit) prog" where
  "spec_load A cfg h = run_calls A (plan_of
     (if ioIsBuiltin cfg then sample_plan
      else parse_plan (ioScheduleInputFilename cfg) (ioOnDInputFilename cfg)
             (ioFRAT5Filename cfg) (ioFFDisutilityFilename cfg) (ioYieldInputFilename cfg)
             (ioFareInputFilename cfg)) h)"

definition spec_solution ::
  "'w apis \<Rightarrow> 'w batch_api \<Rightarrow> configuration \<Rightarrow> crew \<Rightarrow> booking_request \<Rightarrow> travel_solution
   \<Rightarrow> ('w, int) prog" where
  "spec_solution A P cfg h q t = (case fareOptionList t of
      [] \<Rightarrow> seqM (log_error (utilA A) (''No fare option for the chosen travel solution: '' @
              display_solution (utilA A) t)) (ret (-1))
    | fo # _ \<Rightarrow> bindM (front (segmentPath t)) (\<lambda>k.
        seqM (log_debug (utilA A) (''The chosen travel solution is: '' @ k @
                '', the fare is: '' @ show_fare (utilA A) fo @ '' Euros.''))
       (bindM (spec_sell A h (t\<lparr>chosenFareOption := fo\<rparr>) 3) (\<lambda>sold.
        seqM (log_debug (utilA A) (''Sale ('' @ [CHR 0x27] @ stream_request (utilA A) q @
                [CHR 0x27] @ ''):  successful? '' @ show_bool sold))
       (bindM (spec_csv A h) (\<lambda>csv.
        seqM (log_debug (utilA A) csv)
       (seqM (log_close P (ioLogFilename cfg)) (ret 0))))))))"

definition spec_book ::
  "'w apis \<Rightarrow> 'w batch_api \<Rightarrow> configuration \<Rightarrow> crew \<Rightarrow> ('w, int) prog" where
  "spec_book A P cfg h =
     bindM (stdair_buildSampleBookingRequest (stdairA A) (stdairH h) True) (\<lambda>q.
     bindM (spec_paths A h q) (\<lambda>ts.
     if ts = []
     then seqM (log_error (utilA A) (''No travel solution has been found for: '' @
            display_request (utilA A) q)) (ret (-1))
     else bindM (spec_quote A h q ts) (\<lambda>us.
          bindM (front us) (spec_solution A P cfg h q))))"

text \<open>A construction, without the account of the pointers that it leaves behind.\<close>

definition unaccounted :: "(svc list \<times> 'w, 'a) prog \<Rightarrow> ('w, 'a) prog" where
  "unaccounted m = (\<lambda>w. case m ([], w) of (r, ls, v) \<Rightarrow> (r, v))"

definition spec_batch :: "'w apis \<Rightarrow> 'w batch_api \<Rightarrow> configuration \<Rightarrow> ('w, int) prog" where
  "spec_batch A P cfg = finally_do (log_destroy P (ioLogFilename cfg))
     (seqM (log_open P (ioLogFilename cfg))
     (bindM (unaccounted
        (spec_construct A \<lparr>logLevel = ''DEBUG'', logStream = ioLogFilename cfg\<rparr> ''1P''))
       (\<lambda>h. finally_do (give_back A (crew_pointers h))
         (seqM (spec_load A cfg h) (spec_book A P cfg h)))))"

lemma performs_front [performs_intros]: "performs this c (front xs) (front xs)"
  by (cases xs) (auto simp: performs_def on_world_def)

lemma solution_performs:
  assumes "crew_of c = Some h"
  shows "performs this c (book_solution A P cfg this q t) (spec_solution A P cfg h q t)"
proof (cases "fareOptionList t")
  case Nil
  show ?thesis
    unfolding book_solution_def spec_solution_def Nil Let_def
    by (simp del: run_simps) (intro performs_intros)
next
  case (Cons fo fos)
  show ?thesis
    unfolding book_solution_def spec_solution_def Cons Let_def
    by (simp del: run_simps)
      (rule performs_intros sales_perform displays_perform assms)+
qed

lemma book_performs:
  assumes "crew_of c = Some h"
  shows "performs this c (book_request A P cfg this) (spec_book A P cfg h)"
  unfolding book_request_def spec_book_def
  by (rule performs_intros displays_perform timed_methods_perform solution_performs assms)+

lemma load_performs:
  assumes "crew_of c = Some h"
  shows "performs this c (load_inventory A cfg this) (spec_load A cfg h)"
  unfolding load_inventory_def spec_load_def plan_of_def
  by (simp add: sample_performs [OF crew_of_handlers(1) [OF assms]]
      parse_performs [OF crew_of_handlers(1) [OF assms]])

text \<open>
  A program on the whole state mirrors one on the external components: same outcome, same
  effect there, and the output texts are not touched.
\<close>

definition mirrors ::
  "(('w, 'x) crs_state_scheme, 'a) prog \<Rightarrow> ('w, 'a) prog \<Rightarrow> ('w, 'x) crs_state_scheme \<Rightarrow> bool"
where
  "mirrors M m s \<longleftrightarrow> fst (M s) = fst (m (world s)) \<and> world (snd (M s)) = snd (m (world s)) \<and>
     crs_state.more (snd (M s)) = crs_state.more s"

lemma mirrors_performs:
  assumes "performs this c M m" "simcrsServiceContext this = Some a" "contexts s a = Some c"
  shows "mirrors M m s"
  using performsD [OF assms] by (simp add: mirrors_def on_world_def split: prod.split)

lemma mirrors_on_world: "mirrors (on_world m) m s"
  by (simp add: mirrors_def on_world_def split: prod.split)

lemma mirrors_finally:
  "mirrors M m s \<Longrightarrow> mirrors (finally_world f M) (finally_do f m) s"
  by (cases "M s"; cases "m (world s)"; cases "fst (M s)")
    (auto simp: mirrors_def finally_world_def finally_do_def)

lemma mirrors_after:
  assumes "\<And>w. mirrors M m (s\<lparr>world := w\<rparr>)"
  shows "mirrors (seqM (on_world n) M) (seqM n m) s"
  using assms [of "snd (n (world s))"]
  by (cases "n (world s)"; cases "fst (n (world s))")
    (simp_all add: mirrors_def seqM_cases on_world_def)

lemma log_constructor_more:
  assumes "mem_ok s" "SIMCRS_Service_log A lp crs s = (r, t)"
  shows "crs_state.more t = crs_state.more s"
  using employs_ends [OF employs_log [OF assms(1)] assms(2)] by (metis prod.exhaust)

text \<open>The service from its first call to its destructor.\<close>

lemma serving_mirror:
  assumes h: "crew_of c = Some h" and ptr: "simcrsServiceContext this = Some a"
    and c: "contexts s a = Some c"
  shows "mirrors (with_service A this (seqM (load_inventory A cfg this) (book_request A P cfg this)))
    (finally_do (give_back A (crew_pointers h)) (seqM (spec_load A cfg h) (spec_book A P cfg h))) s"
proof -
  obtain r v where r: "seqM (spec_load A cfg h) (spec_book A P cfg h) (world s) = (r, v)"
    by fastforce
  have "performs this c (seqM (load_inventory A cfg this) (book_request A P cfg this))
      (seqM (spec_load A cfg h) (spec_book A P cfg h))"
    by (rule performs_intros load_performs book_performs h)+
  from performsD [OF this ptr c]
  have "seqM (load_inventory A cfg this) (book_request A P cfg this) s
      = (r, s\<lparr>world := v\<rparr>)" using r by (simp add: on_world_def)
  moreover have "SIMCRS_Service_destroy A this (s\<lparr>world := v\<rparr>)
      = (Ret (), destroyed A a c (s\<lparr>world := v\<rparr>))"
    by (rule destroy_run [OF ptr]) (simp add: c)
  ultimately show ?thesis
    using r by (cases r) (simp_all add: mirrors_def with_service_def seqM_cases finally_do_def
        destroyed_def drop_slots_given reset_crew [OF h])
qed

lemma run_batch_mirrors:
  assumes ok: "mem_ok s"
  shows "mirrors (run_batch A P cfg) (spec_batch A P cfg) s"
  unfolding run_batch_def spec_batch_def Let_def
proof (rule mirrors_finally, rule mirrors_after)
  fix w
  let ?lp = "\<lparr>logLevel = ''DEBUG'', logStream = ioLogFilename cfg\<rparr>" and ?s = "s\<lparr>world := w\<rparr>"
  obtain r t where ctor: "SIMCRS_Service_log A ?lp ''1P'' ?s = (r, t)" by fastforce
  obtain p ls v where spec: "spec_construct A ?lp ''1P'' ([], world ?s) = (p, ls, v)"
    using prod.exhaust by metis
  have "mem_ok ?s" using ok by simp
  note ends = employs_ends [OF employs_log [OF this] ctor spec]
  show "mirrors (bindM (SIMCRS_Service_log A ?lp ''1P'') (\<lambda>this. with_service A this
        (seqM (load_inventory A cfg this) (book_request A P cfg this))))
      (bindM (unaccounted (spec_construct A ?lp ''1P'')) (\<lambda>h.
        finally_do (give_back A (crew_pointers h))
          (seqM (spec_load A cfg h) (spec_book A P cfg h)))) ?s"
  proof (cases p)
    case h: (Ret h)
    with ends obtain this a c where t: "r = Ret this" "simcrsServiceContext this = Some a"
      "contexts t a = Some c" "crew_of c = Some h" "world t = v"
      "crs_state.more t = crs_state.more s"
      by (auto simp: crew_at_iff)
    from serving_mirror [OF t(4,2,3), of A cfg P] t spec ctor h show ?thesis
      by (simp add: mirrors_def bindM_cases unaccounted_def)
  qed (use ends ctor spec in \<open>simp_all add: mirrors_def bindM_cases unaccounted_def\<close>)
qed

section \<open>Properties\<close>

definition spec_main ::
  "build_config \<Rightarrow> 'w apis \<Rightarrow> 'w batch_api \<Rightarrow> string list \<Rightarrow> ('w outside, int) prog" where
  "spec_main B A P argv = bindM (spec_options B P argv empty_configuration) (\<lambda>(status, cfg).
     if status = K_SIMCRS_EARLY_RETURN_STATUS then ret 0
     else (\<lambda>(w, out, err). case spec_batch A P cfg w of (r, w') \<Rightarrow> (r, w', out, err)))"

lemma texts_more:
  fixes s t :: "('w, 'x) process_scheme"
  shows "crs_state.more t = crs_state.more s \<Longrightarrow> cout t = cout s \<and> cerr t = cerr s"
  by (cases t; cases s) simp

lemma main_mirrors:
  assumes "mem_ok s"
  shows "(case simcrs_main B A P argv s of (r, t) \<Rightarrow> (r, outside t))
    = spec_main B A P argv (outside s)"
proof -
  obtain r v where opts: "spec_options B P argv empty_configuration (outside s) = (r, v)"
    using prod.exhaust by blast
  show ?thesis
  proof (cases r)
    case (Ret x)
    obtain status cfg where x: "x = (status, cfg)" by (cases x)
    obtain w out err where v: "v = (w, out, err)" by (cases v)
    have "mem_ok (with_outside v s)"
      using assms by (simp add: v with_outside_def mem_ok_def service_layer_ok_def
          singletons_ok_def fresh_ok_def cong: option.case_cong)
    from run_batch_mirrors [OF this, of A P cfg] show ?thesis
      using opts Ret x v
      by (auto simp: simcrs_main_def spec_main_def bindM_cases readConfiguration_exact
          mirrors_def outside_def with_outside_def dest: texts_more split: prod.splits)
  qed (use opts in \<open>simp_all add: simcrs_main_def spec_main_def bindM_cases
      readConfiguration_exact outside_def with_outside_def split: prod.splits\<close>)
qed

text \<open>
  C4. The batch program refines a program without memory: from every well-formed state of the
  factories it ends with the same outcome (status, exception or fault) as \<open>spec_main\<close>, with
  the same effect on the other components, and with the same text on the standard output and
  on the standard error. In particular no object of SimCRS that an earlier run left in memory
  can be seen from outside.
\<close>

theorem main_refines_spec:
  assumes "mem_ok s" and "simcrs_main B A P argv s = (r, t)"
  shows "spec_main B A P argv (world s, cout s, cerr s) = (r, world t, cout t, cerr t)"
  using main_mirrors [OF assms(1), of B A P argv] assms(2) by (simp add: outside_def)

theorem main_refines_spec_witness:
  "\<exists>w. spec_main sample_build (echo_apis (\<lambda>_. True) [one_solution])
     (sample_batch [''builtin'' \<mapsto> []]) [] (([], 0), [], []) = (Ret 0, w)"
  using sample_main main_refines_spec [OF mem_ok_process]
  by (force simp: sample_process_def)

text \<open>
  C26. What the options print and return, exactly, once the parser has returned: for \<open>--help\<close>,
  \<open>--version\<close> and \<open>--prefix\<close>, in this order, one text and the status of an early return. For
  any other command line the status 0 and the values of the options, one line on where the
  inventory comes from, and one line per option with a value in the order of the code, but
  none for the password. The input files are read only without \<open>--builtin\<close>; then each one
  without a value is reported on the standard error.
\<close>

theorem readConfiguration_output:
  assumes "po_parse P (cmdline_options B) (config_file_options B) ''copyright'' argv
      (c\<lparr>ioIsBuiltin := False\<rparr>) (world s) = (Ret (vm, cfg), w)"
  shows "readConfiguration B P argv c s = (case early_text B P vm of
      Some t \<Rightarrow> (Ret (K_SIMCRS_EARLY_RETURN_STATUS, cfg), s\<lparr>world := w, cout := cout s @ line t\<rparr>)
    | None \<Rightarrow>
        if vm ''builtin'' \<noteq> None \<or> ioIsBuiltin cfg
        then (Ret (0, others_config vm (cfg\<lparr>ioIsBuiltin := True\<rparr>)), s\<lparr>world := w,
          cout := cout s @ line ''The BOM should be built-in? yes'' @ found vm other_labels\<rparr>)
        else (Ret (0, others_config vm (files_config vm cfg)), s\<lparr>world := w,
          cout := cout s @ line ''The BOM should be built-in? no'' @ found vm file_labels @
            found vm other_labels,
          cerr := cerr s @ missing vm file_labels\<rparr>))"
  using assms by (auto simp: readConfiguration_exact spec_options_def outside_def with_outside_def
      split: option.split)

theorem readConfiguration_output_witness:
  "\<exists>cfg. readConfiguration sample_build
     (sample_batch [''schedule'' \<mapsto> ''s.csv'', ''passwd'' \<mapsto> ''secret'', ''port'' \<mapsto> ''99'']) []
     empty_configuration sample_process = (Ret (0, cfg), sample_process\<lparr>
       cout := line ''The BOM should be built-in? no'' @
         line ''Schedule input filename is: s.csv'' @ line ''SQL database port number is: 99'',
       cerr := concat (replicate 5 (line oErrorMessageStr))\<rparr>)"
  by (subst readConfiguration_output [OF sample_parse])
    (simp add: sample_process_def found_def missing_def file_labels_def other_labels_def
      line_def numeral_eq_Suc early_text_def empty_configuration_def)

text \<open>
  C34. Where the inventory comes from, when none of \<open>--help\<close>, \<open>--version\<close> and \<open>--prefix\<close> is
  given: with \<open>--builtin\<close> the sample is built and no file is looked at. Otherwise
  \<open>parseAndLoad\<close> gets the schedule, O&D, FRAT5, disutility, yield and fare file in its order,
  each with the value of its own option or, when there is none, what the parser has left in
  the variable; the standard error has one message per missing option, and none when all six
  have a value.
\<close>

theorem input_files_reach_service:
  assumes "po_parse P (cmdline_options B) (config_file_options B) ''copyright'' argv
      (c\<lparr>ioIsBuiltin := False\<rparr>) (world s) = (Ret (vm, cfg), w)"
    and "vm ''help'' = None" and "vm ''version'' = None" and "vm ''prefix'' = None"
  shows "\<exists>cfg' t. readConfiguration B P argv c s = (Ret (0, cfg'), t) \<and>
    (if vm ''builtin'' \<noteq> None \<or> ioIsBuiltin cfg
     then (\<forall>A service. load_inventory A cfg' service = SIMCRS_buildSampleBom A service) \<and>
       cerr t = cerr s
     else (\<forall>A service. load_inventory A cfg' service = SIMCRS_parseAndLoad A service
         (pick vm ''schedule'' (ioScheduleInputFilename cfg))
         (pick vm ''ond'' (ioOnDInputFilename cfg))
         (pick vm ''frat5'' (ioFRAT5Filename cfg))
         (pick vm ''ff_disutility'' (ioFFDisutilityFilename cfg))
         (pick vm ''yield'' (ioYieldInputFilename cfg))
         (pick vm ''fare'' (ioFareInputFilename cfg))) \<and>
       cerr t = cerr s @ concat (replicate (missing_files vm) (line oErrorMessageStr)))"
  using assms by (auto simp: readConfiguration_exact spec_options_def outside_def with_outside_def
      early_text_def load_inventory_def others_config_def files_config_def missing_replicate)

theorem input_files_reach_service_witness:
  "\<exists>cfg' t. readConfiguration sample_build (sample_batch default_options) []
     empty_configuration sample_process = (Ret (0, cfg'), t) \<and> cerr t = [] \<and>
     load_inventory (echo_apis (\<lambda>_. True) []) cfg' sample_service
       = SIMCRS_parseAndLoad (echo_apis (\<lambda>_. True) []) sample_service ''s.csv'' ''o.csv''
           ''F.csv'' ''D.csv'' ''y.csv'' ''f.csv''"
proof -
  have vm: "default_options ''help'' = None" "default_options ''version'' = None"
    "default_options ''prefix'' = None"
    by (simp_all add: default_options_def)
  have files: "\<not> (default_options ''builtin'' \<noteq> None \<or> ioIsBuiltin (empty_configuration\<lparr>ioIsBuiltin := False\<rparr>))"
    "pick default_options ''schedule'' old = ''s.csv''" "pick default_options ''ond'' old = ''o.csv''"
    "pick default_options ''frat5'' old = ''F.csv''" "pick default_options ''fare'' old = ''f.csv''"
    "pick default_options ''ff_disutility'' old = ''D.csv''"
    "pick default_options ''yield'' old = ''y.csv''"
    "missing_files default_options = 0" "cerr sample_process = []" for old
    by (simp_all add: default_options_def pick_def missing_files_def file_options_def
        sample_process_def)
  from input_files_reach_service [OF sample_parse vm, of sample_build "[]" empty_configuration
      sample_process]
  show ?thesis unfolding if_not_P [OF files(1)] files(2-) by auto
qed

end
