(* ===== verification/CRS_Accounts.thy ===== *)
theory CRS_Accounts
  imports CRS_Ledger CRS_Program
begin

text \<open>
  The account of the shared pointers of the batch program: with a ledger beside the other
  components, the program ends with the ledger it has started with.
\<close>

section \<open>The ledger of the batch program\<close>

definition discreet_batch :: "('w \<Rightarrow> ledger) \<Rightarrow> 'w batch_api \<Rightarrow> bool" where
  "discreet_batch book P \<longleftrightarrow> (\<forall>f. keeps book (log_open P f)) \<and>
     (\<forall>f. keeps book (log_close P f)) \<and> (\<forall>f w. book (log_destroy P f w) = book w) \<and>
     (\<forall>x y z l c. keeps book (po_parse P x y z l c))"

lemma front_discreet: "keeps book (front xs)"
  by (cases xs) (simp_all add: keeps_intros)

lemma serving_discreet:
  assumes A: "discreet book A" and P: "discreet_batch book P"
  shows "keeps book (seqM (spec_load A cfg h) (spec_book A P cfg h))"
proof -
  have close: "keeps book (log_close P f)" for f using P by (simp add: discreet_batch_def)
  have "keeps book (spec_solution A P cfg h q t)" for q t
    unfolding spec_solution_def spec_sell_def spec_csv_def timed_def
    by (cases "fareOptionList t")
      (auto intro!: keeps_intros front_discreet script_discreet discreetD A close)
  then show ?thesis
    unfolding spec_load_def spec_book_def spec_paths_def spec_quote_def timed_def
    by (auto intro!: keeps_intros run_calls_discreet front_discreet discreetD A)
qed

context bookkeeping
begin

lemma serving_gives_back:
  assumes P: "discreet_batch book P"
    and run: "finally_do (give_back A (crew_pointers h))
      (seqM (spec_load A cfg h) (spec_book A P cfg h)) w = (r, v)"
    and nohalt: "\<not> is_halt r" and bk: "book w = owing c (mset (crew_pointers h) + N)"
  shows "book v = owing c N"
proof -
  obtain q u where u: "seqM (spec_load A cfg h) (spec_book A P cfg h) w = (q, u)" by fastforce
  have "book u = owing c (mset (crew_pointers h) + N)"
    using keepsD [OF serving_discreet [OF other_law P] u] bk by simp
  from give_back_all [OF this] run u nohalt show ?thesis
    by (cases q) (auto simp: finally_do_def)
qed

lemma batch_gives_back:
  assumes P: "discreet_batch book P" and run: "spec_batch A P cfg w = (r, v)"
    and ends: "(\<exists>status. r = Ret status) \<or> (\<exists>e. r = Throw e) \<and> makes_return A"
    and bk: "book w = owing c N"
  shows "book v = owing c N"
proof -
  let ?lp = "\<lparr>logLevel = ''DEBUG'', logStream = ioLogFilename cfg\<rparr>"
  have logs: "keeps book (log_open P f)" "book (log_destroy P f x) = book x" for f x
    using P by (simp_all add: discreet_batch_def)
  have nohalt: "\<not> is_halt r" using ends by auto
  obtain q u where q: "log_open P (ioLogFilename cfg) w = (q, u)" by fastforce
  have u: "book u = owing c N" using keepsD [OF logs(1) q] bk by simp
  show ?thesis
  proof (cases q)
    case Ret
    obtain p ls x where p: "spec_construct A ?lp ''1P'' ([], u) = (p, ls, x)"
      using prod.exhaust by metis
    have settled: "settled c N p [] ls x" by (rule constructor_settled [OF spec_log p u])
    let ?body = "\<lambda>h. finally_do (give_back A (crew_pointers h))
        (seqM (spec_load A cfg h) (spec_book A P cfg h))"
    let ?inner = "seqM (log_open P (ioLogFilename cfg))
        (bindM (unaccounted (spec_construct A ?lp ''1P'')) ?body)"
    have batch: "spec_batch A P cfg w = finally_do (log_destroy P (ioLogFilename cfg)) ?inner w"
      by (simp add: spec_batch_def)
    have ended: "r' = r \<and> v = log_destroy P (ioLogFilename cfg) y \<or> is_halt r \<and> r' = r"
      if "?inner w = (r', y)" for r' y
      using run finally_do_run [of ?inner w r' y "log_destroy P (ioLogFilename cfg)", OF that]
      unfolding batch by (auto split: if_splits)
    have inner: "?inner w = bindM (unaccounted (spec_construct A ?lp ''1P'')) ?body u"
      using q Ret by (simp add: seqM_def bindM_def)
    show ?thesis
    proof (cases p)
      case h: (Ret h)
      have un: "unaccounted (spec_construct A ?lp ''1P'') u = (Ret h, x)"
        by (simp add: unaccounted_def p h)
      obtain r' y where y: "?body h x = (r', y)" by fastforce
      have "?inner w = (r', y)" unfolding inner using un y by (simp add: bindM_def)
      with ended nohalt have r': "r' = r" "v = log_destroy P (ioLogFilename cfg) y" by blast+
      have "book y = owing c N"
        by (rule serving_gives_back [OF P y]) (use settled h r'(1) nohalt in \<open>simp_all add: settled_def\<close>)
      with r'(2) logs(2) show ?thesis by simp
    next
      case (Throw e)
      have "?inner w = (Throw e, x)"
        unfolding inner using p Throw by (simp add: unaccounted_def bindM_def)
      with ended have "r = Throw e" by blast
      then have mk: "makes_return A" using ends by auto
      obtain this t where "SIMCRS_Service_log A ?lp ''1P'' (fresh_state u) = (Ret this, t)"
        by (rule log_constructor_serves [OF mem_ok_fresh mk])
      from employs_ends [OF employs_log [OF mem_ok_fresh] this, of "[]"] p Throw
      show ?thesis
        by (force simp: fresh_state_def)
    next
      case (Halt b)
      have "?inner w = (Halt b, x)"
        unfolding inner using p Halt by (simp add: unaccounted_def bindM_def)
      with ended nohalt show ?thesis by fastforce
    qed
  next
    case (Throw e)
    with q run have "v = log_destroy P (ioLogFilename cfg) u"
      by (simp add: spec_batch_def finally_do_def seqM_def bindM_def)
    with u logs(2) show ?thesis by simp
  next
    case (Halt b)
    with q run have "r = Halt b" by (simp add: spec_batch_def finally_do_def seqM_def bindM_def)
    with nohalt show ?thesis by simp
  qed
qed

end

section \<open>The whole program\<close>

lemma entering_returns: "(\<exists>x v. entering m (w, L) = (Ret x, v)) \<longleftrightarrow> (\<exists>x v. m w = (Ret x, v))"
  by (auto simp: entering_def split: prod.splits outcome.splits)

lemma makes_return_ledger: "makes_return A \<Longrightarrow> makes_return (with_ledger A)"
  by (simp add: makes_return_def with_ledger_def split_paired_all entering_returns
      del: split_paired_Ex)

definition batch_with_ledger :: "'w batch_api \<Rightarrow> ('w \<times> ledger) batch_api" where
  "batch_with_ledger P = \<lparr>po_parse = (\<lambda>x y z l c. aside (po_parse P x y z l c)),
     po_show = po_show P, log_open = (\<lambda>f. aside (log_open P f)),
     log_close = (\<lambda>f. aside (log_close P f)),
     log_destroy = (\<lambda>f (w, L). (log_destroy P f w, L))\<rparr>"

lemma batch_discreet: "discreet_batch snd (batch_with_ledger P)"
  by (auto simp: discreet_batch_def batch_with_ledger_def)

lemma options_ledger:
  "keeps (\<lambda>(w, out, err). snd w) (spec_options B (batch_with_ledger P) argv c)"
  by (auto simp: keeps_def spec_options_def batch_with_ledger_def aside_def
      split: prod.splits outcome.splits option.splits)

text \<open>
  The sample program with the built-in tree, on an empty ledger.
\<close>

definition ledger_process :: "(echo \<times> ledger) process" where
  "ledger_process = \<lparr>supervisorInstance = None, ctxFactoryInstance = None,
     supervisors = Map.empty, serviceFactories = Map.empty, bomFactories = Map.empty,
     contexts = Map.empty, boms = Map.empty, nextAddr = 0, world = (([], 0), Some (\<lambda>_. 0)),
     cout = [], cerr = []\<rparr>"

lemma ledger_main:
  "\<exists>t. simcrs_main sample_build (with_ledger (echo_apis (\<lambda>_. True) [one_solution]))
     (batch_with_ledger (sample_batch [''builtin'' \<mapsto> []])) [] ledger_process = (Ret 0, t)"
  by (simp add: simcrs_main_def readConfiguration_def sample_batch_def ledger_process_def
      run_batch_def empty_configuration_def K_SIMCRS_DEFAULT_BUILT_IN_INPUT_def
      K_SIMCRS_EARLY_RETURN_STATUS_def other_options_def other_option_def
      SIMCRS_Service_log_def init_defs creation_defs setter_defs load_def load_inventory_def
      SIMCRS_buildComplementaryLinks_def booking_defs one_solution_def
      DistributionManager_sell_def echo_apis_def SIMCRS_Service_destroy_def finalise_def
      block_defs with_ledger_def batch_with_ledger_def entering_def aside_def aside_ref_def
      credit_def debit_def)

lemma mem_ok_ledger_process: "mem_ok ledger_process"
  by (simp add: ledger_process_def mem_ok_def service_layer_ok_def singletons_ok_def
      fresh_ok_def)

lemma ledger_process_book: "snd (world ledger_process) = Some (\<lambda>_. 0)"
  by (simp add: ledger_process_def)

section \<open>Properties\<close>

text \<open>
  C8. The batch program leaks no shared pointer: when it returns, whatever its status, or ends
  with an exception although the other constructors return, the ledger is that of the start.
  Each pointer that the program has taken, in its context or in a local variable, has been
  given up exactly once, whatever the other components do.
\<close>

theorem main_leaks_no_pointer:
  assumes "mem_ok s" and "snd (world s) = Some c"
    and "simcrs_main B (with_ledger A) (batch_with_ledger P) argv s = (r, t)"
    and "(\<exists>status. r = Ret status) \<or> (\<exists>e. r = Throw e) \<and> makes_return A"
  shows "snd (world t) = Some c"
proof -
  have mk: "(\<exists>status. r = Ret status) \<or> (\<exists>e. r = Throw e) \<and> makes_return (with_ledger A)"
    using assms(4) makes_return_ledger by blast
  have spec: "spec_main B (with_ledger A) (batch_with_ledger P) argv (outside s) = (r, outside t)"
    using main_mirrors [OF assms(1), of B "with_ledger A" "batch_with_ledger P" argv] assms(3)
    by simp
  obtain q w out err where
    q: "spec_options B (batch_with_ledger P) argv empty_configuration (outside s) = (q, w, out, err)"
    using prod.exhaust by metis
  have w: "snd w = owing c {#}"
    using keepsD [OF options_ledger q] assms(2) by (simp add: outside_def)
  show ?thesis
  proof (cases q)
    case (Ret x)
    obtain status cfg where x: "x = (status, cfg)" by (cases x)
    obtain r' v where v: "spec_batch (with_ledger A) (batch_with_ledger P) cfg w = (r', v)"
      using prod.exhaust by metis
    show ?thesis
      using spec q Ret x v w ledger.batch_gives_back [OF batch_discreet v _ w] mk
      by (auto simp: spec_main_def bindM_cases outside_def split: if_splits)
  qed (use spec q w in \<open>auto simp: spec_main_def bindM_cases outside_def\<close>)
qed

theorem main_leaks_no_pointer_witness:
  "\<exists>t. simcrs_main sample_build (with_ledger (echo_apis (\<lambda>_. True) [one_solution]))
     (batch_with_ledger (sample_batch [''builtin'' \<mapsto> []])) [] ledger_process = (Ret 0, t) \<and>
   snd (world t) = Some (\<lambda>_. 0)"
  using ledger_main main_leaks_no_pointer [OF mem_ok_ledger_process] ledger_process_book
  by blast

end
