(* ===== verification/CRS_Usage.thy ===== *)
theory CRS_Usage
  imports CRS_Accounts
begin

text \<open>
  No use of a dead service. An external service is alive as long as the ledger shows a pointer
  on it. The components are watched: a call to a service that is not alive, or a constructor
  that is given a pointer to one, is a fault. Watching them is shown to change nothing.
\<close>

section \<open>Watched components\<close>

definition alive :: "svc \<Rightarrow> ledger \<Rightarrow> bool" where
  "alive x L = (case L of None \<Rightarrow> False | Some c \<Rightarrow> 0 < c x)"

definition if_alive :: "('s \<Rightarrow> ledger) \<Rightarrow> svc \<Rightarrow> ('s, 'a) prog \<Rightarrow> ('s, 'a) prog" where
  "if_alive book x m = (\<lambda>s. if alive x (book s) then m s else (Halt (Undefined Dangling), s))"

definition if_given :: "('s \<Rightarrow> ledger) \<Rightarrow> sptr \<Rightarrow> ('s, 'a) prog \<Rightarrow> ('s, 'a) prog" where
  "if_given book p m = (case p of None \<Rightarrow> m | Some x \<Rightarrow> if_alive book x m)"

definition watched_stdair :: "('w \<Rightarrow> ledger) \<Rightarrow> 'w stdair_api \<Rightarrow> 'w stdair_api" where
  "watched_stdair book S = S\<lparr>
     stdair_getBomRoot := (\<lambda>x. if_alive book x (stdair_getBomRoot S x)),
     stdair_getPersistentBomRoot := (\<lambda>x. if_alive book x (stdair_getPersistentBomRoot S x)),
     stdair_buildSampleBom := (\<lambda>x. if_alive book x (stdair_buildSampleBom S x)),
     stdair_clonePersistentBom := (\<lambda>x. if_alive book x (stdair_clonePersistentBom S x)),
     stdair_buildSampleTravelSolutions := (\<lambda>x. if_alive (beside book) x (stdair_buildSampleTravelSolutions S x)),
     stdair_buildSampleBookingRequest := (\<lambda>x b. if_alive book x (stdair_buildSampleBookingRequest S x b)),
     stdair_csvDisplay := (\<lambda>x r. if_alive book x (stdair_csvDisplay S x r)),
     stdair_csvDisplay_list := (\<lambda>x l. if_alive book x (stdair_csvDisplay_list S x l))\<rparr>"

definition watched_airtsp :: "('w \<Rightarrow> ledger) \<Rightarrow> 'w airtsp_api \<Rightarrow> 'w airtsp_api" where
  "watched_airtsp book S = S\<lparr>
     airtsp_make := (\<lambda>p. if_given book p (airtsp_make S p)),
     airtsp_parseAndLoad := (\<lambda>x f. if_alive book x (airtsp_parseAndLoad S x f)),
     airtsp_buildSampleBom := (\<lambda>x. if_alive book x (airtsp_buildSampleBom S x)),
     airtsp_clonePersistentBom := (\<lambda>x. if_alive book x (airtsp_clonePersistentBom S x)),
     airtsp_buildSegmentPathList := (\<lambda>x q. if_alive (beside book) x (airtsp_buildSegmentPathList S x q))\<rparr>"

definition watched_simfqt :: "('w \<Rightarrow> ledger) \<Rightarrow> 'w simfqt_api \<Rightarrow> 'w simfqt_api" where
  "watched_simfqt book S = S\<lparr>
     simfqt_make := (\<lambda>p. if_given book p (simfqt_make S p)),
     simfqt_parseAndLoad := (\<lambda>x f. if_alive book x (simfqt_parseAndLoad S x f)),
     simfqt_buildSampleBom := (\<lambda>x. if_alive book x (simfqt_buildSampleBom S x)),
     simfqt_clonePersistentBom := (\<lambda>x. if_alive book x (simfqt_clonePersistentBom S x)),
     simfqt_quotePrices := (\<lambda>x q. if_alive (beside book) x (simfqt_quotePrices S x q))\<rparr>"

definition watched_airinv :: "('w \<Rightarrow> ledger) \<Rightarrow> 'w airinv_api \<Rightarrow> 'w airinv_api" where
  "watched_airinv book S = S\<lparr>
     airinv_make := (\<lambda>p. if_given book p (airinv_make S p)),
     airinv_make_sevmgr :=
       (\<lambda>p q. if_given book p (if_given book q (airinv_make_sevmgr S p q))),
     airinv_parseAndLoad := (\<lambda>x f g h i j. if_alive book x (airinv_parseAndLoad S x f g h i j)),
     airinv_buildSampleBom := (\<lambda>x. if_alive book x (airinv_buildSampleBom S x)),
     airinv_clonePersistentBom := (\<lambda>x. if_alive book x (airinv_clonePersistentBom S x)),
     airinv_calculateAvailability := (\<lambda>x. if_alive (beside book) x (airinv_calculateAvailability S x)),
     airinv_sell_id := (\<lambda>x c n. if_alive book x (airinv_sell_id S x c n)),
     airinv_sell_key := (\<lambda>x k c n. if_alive book x (airinv_sell_key S x k c n)),
     airinv_cancel := (\<lambda>x c n. if_alive book x (airinv_cancel S x c n)),
     airinv_jsonHandler := (\<lambda>x j. if_alive book x (airinv_jsonHandler S x j)),
     airinv_list := (\<lambda>x a n. if_alive book x (airinv_list S x a n)),
     airinv_csvDisplay := (\<lambda>x a n d. if_alive book x (airinv_csvDisplay S x a n d)),
     airinv_initSnapshotAndRMEvents := (\<lambda>x b e. if_alive book x (airinv_initSnapshotAndRMEvents S x b e)),
     airinv_takeSnapshots := (\<lambda>x q. if_alive book x (airinv_takeSnapshots S x q)),
     airinv_optimise := (\<lambda>x q. if_alive book x (airinv_optimise S x q))\<rparr>"

definition watched :: "('w \<Rightarrow> ledger) \<Rightarrow> 'w apis \<Rightarrow> 'w apis" where
  "watched book A = A\<lparr>stdairA := watched_stdair book (stdairA A),
     airtspA := watched_airtsp book (airtspA A), simfqtA := watched_simfqt book (simfqtA A),
     airinvA := watched_airinv book (airinvA A)\<rparr>"

lemma watched_parts [simp]:
  "utilA (watched book A) = utilA A" "sharedA (watched book A) = sharedA A"
  "stdairA (watched book A) = watched_stdair book (stdairA A)"
  "airtspA (watched book A) = watched_airtsp book (airtspA A)"
  "simfqtA (watched book A) = watched_simfqt book (simfqtA A)"
  "airinvA (watched book A) = watched_airinv book (airinvA A)"
  by (simp_all add: watched_def)

lemmas watched_defs = watched_stdair_def watched_airtsp_def watched_simfqt_def watched_airinv_def

text \<open>
  \<open>alike book X m n\<close>: as long as the services \<open>X\<close> are alive, \<open>m\<close> does what \<open>n\<close> does, and \<open>n\<close>
  leaves the ledger alone.
\<close>

definition alike :: "('s \<Rightarrow> ledger) \<Rightarrow> svc set \<Rightarrow> ('s, 'a) prog \<Rightarrow> ('s, 'a) prog \<Rightarrow> bool" where
  "alike book X m n \<longleftrightarrow> keeps book n \<and> (\<forall>s. (\<forall>x \<in> X. alive x (book s)) \<longrightarrow> m s = n s)"

named_theorems alike_intros "rules that compare a program with its watched version"

lemma alike_same: "keeps book n \<Longrightarrow> alike book X n n"
  by (simp add: alike_def)

lemma alike_prims [alike_intros]:
  "alike book X (ret x) (ret x)" "alike book X (halt b) (halt b)"
  by (intro alike_same keeps_intros)+

lemma alike_bindM [alike_intros]:
  assumes "alike book X m n" "\<And>x. alike book X (f x) (g x)"
  shows "alike book X (bindM m f) (bindM n g)"
proof -
  have "bindM m f s = bindM n g s" if s: "\<forall>x \<in> X. alive x (book s)" for s
  proof -
    obtain r t where t: "n s = (r, t)" by fastforce
    with assms(1) s have "book t = book s" "m s = (r, t)"
      by (auto simp: alike_def dest: keepsD)
    with t assms(2) s show ?thesis by (cases r) (simp_all add: bindM_cases alike_def)
  qed
  with assms show ?thesis by (auto simp: alike_def intro!: keeps_intros)
qed

lemma alike_seqM [alike_intros]:
  "alike book X m n \<Longrightarrow> alike book X m' n' \<Longrightarrow> alike book X (seqM m m') (seqM n n')"
  unfolding seqM_def by (intro alike_intros)

lemma alike_mapM [alike_intros]:
  "(\<And>x. alike book X (f x) (g x)) \<Longrightarrow> alike book X (mapM f xs) (mapM g xs)"
  by (induction xs) (auto intro!: alike_intros simp del: run_simps)

lemma alike_if [alike_intros]:
  "alike book X m n \<Longrightarrow> alike book X m' n' \<Longrightarrow>
     alike book X (if b then m else m') (if b then n else n')"
  by simp

lemma alike_alive [alike_intros]:
  "x \<in> X \<Longrightarrow> keeps book n \<Longrightarrow> alike book X (if_alive book x n) n"
  by (simp add: alike_def if_alive_def)

lemma alike_local [alike_intros]:
  "alike (beside book) X m n \<Longrightarrow> alike book X (with_local v m) (with_local v n)"
  by (auto simp: alike_def intro: keeps_beside_local) (auto simp: beside_def with_local_def)

lemma alike_reply [alike_intros]:
  "alike book X m n \<Longrightarrow> alike book X (as_reply f m) (as_reply f n)"
  unfolding as_reply_def by (intro alike_intros)

section \<open>The public methods\<close>

lemma alike_timed [alike_intros]:
  assumes "discreet book A" "\<And>x. keeps book (note x)" "alike book X m n"
  shows "alike book X (timed (watched book A) h label note m) (timed A h label note n)"
  unfolding timed_def watched_parts
  by (intro alike_intros assms alike_same discreetD)

text \<open>The service that a call of a plan goes to.\<close>

fun callee :: "ext_call \<Rightarrow> svc" where
  "callee (Get_BomRoot x) = x"
| "callee (Get_PersistentBomRoot x) = x"
| "callee (StdAir_sample x) = x"
| "callee (StdAir_clone x) = x"
| "callee (AirTSP_parse x f) = x"
| "callee (AirTSP_sample x) = x"
| "callee (AirTSP_clone x) = x"
| "callee (AirInv_parse x f g h i j) = x"
| "callee (AirInv_sample x) = x"
| "callee (AirInv_clone x) = x"
| "callee (SimFQT_parse x f) = x"
| "callee (SimFQT_sample x) = x"
| "callee (SimFQT_clone x) = x"

lemma alike_run_call:
  assumes "discreet book A" and "callee k \<in> X"
  shows "alike book X (run_call (watched book A) k) (run_call A k)"
  using assms(2)
  by (cases k) (auto simp: run_call_simps watched_defs intro!: alike_intros discreetD [OF assms(1)]
      simp del: run_simps)

lemma alike_run_calls:
  assumes "discreet book A"
  shows "\<forall>k \<in> set ks. callee k \<in> X \<Longrightarrow>
    alike book X (run_calls (watched book A) ks) (run_calls A ks)"
  by (induction ks)
    (auto intro!: alike_intros alike_run_call assms simp del: run_simps)

lemma alike_script [alike_intros]:
  assumes "discreet book A" and "ai \<in> X"
  shows "alike book X (run_script (watched book A) ai n sc ok) (run_script A ai n sc ok)"
proof -
  have "alike book X (submit (watched book A) ai n r) (submit A ai n r)" for r
    using assms(2) by (cases r) (auto simp: watched_defs intro!: alike_intros discreetD [OF assms(1)])
  then show ?thesis
    unfolding run_script_def by (auto intro!: alike_intros split: option.split simp del: run_simps)
qed

lemma plans_call_crew:
  "callee ` set (plan_of sample_plan h) \<subseteq> set (crew_pointers h)"
  "callee ` set (plan_of clone_plan h) \<subseteq> set (crew_pointers h)"
  "callee ` set (plan_of (parse_plan f g i j k l) h) \<subseteq> set (crew_pointers h)"
  by (auto simp: plan_of_def sample_plan_def clone_plan_def parse_plan_def crew_pointers_def)

lemma crew_called:
  "stdairH h \<in> set (crew_pointers h)" "airtspH h \<in> set (crew_pointers h)"
  "airinvH h \<in> set (crew_pointers h)" "simfqtH h \<in> set (crew_pointers h)"
  by (simp_all add: crew_pointers_def)

lemma alike_plan:
  assumes "discreet book A" "callee ` set ks \<subseteq> X"
  shows "alike book X (run_calls (watched book A) ks) (run_calls A ks)"
  using assms(2) by (intro alike_run_calls [OF assms(1)]) auto

lemma spec_requests_alike:
  fixes h :: crew
  assumes A: "discreet book A" and X: "set (crew_pointers h) \<subseteq> X"
  shows "alike book X (spec_paths (watched book A) h q) (spec_paths A h q)"
    "alike book X (spec_quote (watched book A) h q ts) (spec_quote A h q ts)"
    "alike book X (spec_sell (watched book A) h t n) (spec_sell A h t n)"
    "alike book X (spec_csv (watched book A) h) (spec_csv A h)"
  unfolding spec_paths_def spec_quote_def spec_sell_def spec_csv_def
  using crew_called [of h] X
  by (auto simp: watched_defs intro!: alike_intros discreetD [OF A] keeps_intros A
      simp del: run_simps)

lemma spec_call_alike:
  assumes A: "discreet book A"
  shows "alike book (set (crew_pointers h)) (spec_call (watched book A) h k) (spec_call A h k)"
  by (cases k) (auto simp: watched_defs intro!: alike_intros spec_requests_alike alike_plan
      plans_call_crew crew_called discreetD [OF A] keeps_intros A simp del: run_simps)

section \<open>The constructors\<close>

lemma alive_credit [simp]:
  "alive x L \<Longrightarrow> alive x (credit y L)" "L \<noteq> None \<Longrightarrow> alive x (credit x L)"
  by (auto simp: alive_def credit_def split: option.splits)

lemma bind_same:
  "m s = n s \<Longrightarrow> (\<And>x t. n s = (Ret x, t) \<Longrightarrow> f x t = g x t) \<Longrightarrow> bindM m f s = bindM n g s"
  by (auto simp: bindM_cases split: prod.split outcome.split)

lemma seq_same: "(\<And>t. m s = (Ret (), t) \<Longrightarrow> n t = n' t) \<Longrightarrow> seqM m n s = seqM m n' s"
  unfolding seqM_def by (rule bind_same) simp_all

lemma watched_shared [simp]:
  "spec_hire (watched book A) = spec_hire A" "spec_share (watched book A) = spec_share A"
  "take_sptr (watched book A) = take_sptr A" "give_sptr (watched book A) = give_sptr A"
  "give_back (watched book A) = give_back A"
proof -
  show share: "spec_share (watched book A) = spec_share A"
    by (simp add: fun_eq_iff spec_share_def)
  show "spec_hire (watched book A) = spec_hire A"
    by (simp add: fun_eq_iff spec_hire_def share split: prod.split outcome.split)
  show "take_sptr (watched book A) = take_sptr A" "give_sptr (watched book A) = give_sptr A"
    by (auto simp: fun_eq_iff take_sptr_def give_sptr_def split: option.split)
  show "give_back (watched book A) = give_back A" by (simp add: fun_eq_iff give_back_def)
qed

lemma if_given_alive:
  "\<forall>x \<in> set (given [p]). alive x (book s) \<Longrightarrow> if_given book p m s = m s"
  by (cases p) (simp_all add: if_given_def if_alive_def)

text \<open>Holding a pointer to services does not depend on whether they are watched.\<close>

lemma watched_holding [simp]:
  "held_sptr (watched book A) = held_sptr A" "spec_attach (watched book A) = spec_attach A"
  "spec_local (watched book A) = spec_local A" "spec_param (watched book A) = spec_param A"
  by (simp_all add: fun_eq_iff held_sptr_def spec_attach_def spec_local_def spec_param_def)

lemma hire_same:
  "mk (sptr_copy (sharedA A) st w) = mk' (sptr_copy (sharedA A) st w) \<Longrightarrow>
   spec_hire A st held mk (ls, w) = spec_hire A st held mk' (ls, w)"
  by (simp add: spec_hire_def)

lemma held_same:
  "m (take_sptr A p w) = n (take_sptr A p w) \<Longrightarrow> held_sptr A p m w = held_sptr A p n w"
  by (simp add: held_sptr_def finally_do_def)

lemma param_same:
  "m (ls, take_sptr A p w) = n (ls, take_sptr A p w) \<Longrightarrow>
   spec_param A p m (ls, w) = spec_param A p n (ls, w)"
  by (simp add: spec_param_def spec_local_def finally_do_def)

inductive_simps spec_new_iff: "spec_step A Construct (hs, ls, w) v"
inductive_simps spec_fails_iff: "spec_step A Construct_Fails (hs, ls, w) v"
inductive_simps spec_called_iff: "spec_step A (Call k r) (hs, ls, w) v"
inductive_simps spec_gone_iff: "spec_step A Destroy (hs, ls, w) v"
inductive_simps spec_clean_iff: "spec_step A Clean (hs, ls, w) v"

context bookkeeping
begin

lemma hire_alive:
  assumes "spec_hire A st held mk (ls, w) = (Ret y, ls', v)" "enters book mk" "alive x (book w)"
  shows "alive x (book v)"
  using assms(1,3) spec [OF assms(2) [unfolded enters_def], of "sptr_copy (sharedA A) st w"]
  by (auto simp: spec_hire_def share_law copy_law release_law split: prod.splits outcome.splits)

lemma inventory_watched:
  assumes "\<forall>x \<in> set (given [Some st, q]). alive x (book w)"
  shows "spec_inventory (watched book A) st owned q w = spec_inventory A st owned q w"
proof (cases owned)
  case False
  have "\<forall>x \<in> set (given [Some st, q]). alive x (book (take_sptr A q w))"
    using assms by (cases q) (simp_all add: copy_law)
  then show ?thesis
    using False by (cases q) (auto simp: spec_inventory_def watched_defs seqM_cases assertM_def
        if_given_alive intro!: held_same)
qed (use assms in \<open>simp add: spec_inventory_def watched_defs if_given_alive\<close>)

lemma crew_watched:
  assumes "\<forall>x \<in> set (given [Some st, q]). alive x (book w)"
  shows "spec_crew (watched book A) own st q (spec_inventory (watched book A) st owned q) crs (ls, w)
    = spec_crew A own st q (spec_inventory A st owned q) crs (ls, w)"
  unfolding spec_crew_def watched_shared
proof (intro bind_same)
  have st: "alive st (book w)" and q: "\<forall>x \<in> set (given [q]). alive x (book w)"
    using assms by (cases q; simp)+
  note kept = hire_alive [OF _ simfqt_law] hire_alive [OF _ airtsp_law]
  show "spec_hire A st (given [q, Some st]) (simfqt_make (simfqtA (watched book A)) (Some st)) (ls, w)
      = spec_hire A st (given [q, Some st]) (simfqt_make (simfqtA A) (Some st)) (ls, w)"
    using st by (intro hire_same) (simp add: watched_defs if_given_alive copy_law)
  fix fq t
  assume fq: "spec_hire A st (given [q, Some st]) (simfqt_make (simfqtA A) (Some st)) (ls, w)
    = (Ret fq, t)"
  obtain l1 w1 where t: "t = (l1, w1)" by (cases t)
  have 1: "alive x (book w1)" if "alive x (book w)" for x
    using kept(1) fq that unfolding t by blast
  show "spec_hire A st (given [Some fq, q, Some st]) (airtsp_make (airtspA (watched book A)) (Some st)) t
      = spec_hire A st (given [Some fq, q, Some st]) (airtsp_make (airtspA A) (Some st)) t"
    unfolding t using 1 st by (intro hire_same) (simp add: watched_defs if_given_alive copy_law)
  fix ts u
  assume ts: "spec_hire A st (given [Some fq, q, Some st]) (airtsp_make (airtspA A) (Some st)) t
    = (Ret ts, u)"
  obtain l2 w2 where u: "u = (l2, w2)" by (cases u)
  have 2: "alive x (book w2)" if "alive x (book w)" for x
    using kept(2) ts 1 that unfolding t u by blast
  show "spec_hire A st (given [Some fq, Some ts, q, Some st])
        (spec_inventory (watched book A) st owned q) u
      = spec_hire A st (given [Some fq, Some ts, q, Some st]) (spec_inventory A st owned q) u"
    unfolding u using 2 st q
    by (intro hire_same inventory_watched) (cases q; simp add: copy_law)
qed simp

lemma own_watched:
  assumes "book w \<noteq> None"
  shows "spec_own (watched book A) crs st (ls, w) = spec_own A crs st (ls, w)"
proof -
  have "\<forall>x \<in> set (given [Some st, None]). alive x (book (spec_share A 2 st w))"
    using assms by (simp add: share_law)
  from crew_watched [OF this] show ?thesis
    by (simp add: spec_own_def spec_local_def finally_do_def spec_attach_def)
qed

lemma make_watched:
  assumes "enters book mk" and "book w \<noteq> None"
  shows "bindM (beside_ref mk) (spec_own (watched book A) crs) (ls, w)
    = bindM (beside_ref mk) (spec_own A crs) (ls, w)"
proof (rule bind_same [OF refl])
  fix st t assume "beside_ref mk (ls, w) = (Ret st, t)"
  then obtain v where t: "t = (ls, v)" "mk w = (Ret st, v)"
    by (auto simp: beside_ref_def split: prod.splits)
  with assms spec [OF assms(1) [unfolded enters_def], of w] have "book v \<noteq> None"
    by (auto simp: credit_def)
  then show "spec_own (watched book A) crs st t = spec_own A crs st t"
    unfolding t by (rule own_watched)
qed

lemma shared_watched:
  assumes "book w \<noteq> None"
  shows "spec_construct_shared (watched book A) st q crs (ls, w)
    = spec_construct_shared A st q crs (ls, w)"
proof -
  obtain c where "book w = owing c {#}" using assms by (cases "book w") (auto simp: owing_def)
  from given_law(2) [OF given_law(2) [OF this], of q "Some st"]
  obtain M where "book (take_sptr A q (take_sptr A (Some st) w)) = owing c M" by blast
  from share_all [OF this, of 2 "given [Some st, q]"]
  have "\<forall>x \<in> set (given [Some st, q]). alive x (book (fold (spec_share A 2)
      (given [Some st, q]) (take_sptr A q (take_sptr A (Some st) w))))"
    by (auto simp: alive_def owing_def simp del: given_simps)
  from crew_watched [OF this] show ?thesis
    unfolding spec_construct_shared_def watched_holding
    by (intro param_same) (simp add: spec_attach_def)
qed

lemma constructors_watched:
  assumes "book w \<noteq> None"
  shows "spec_construct (watched book A) lp crs (ls, w) = spec_construct A lp crs (ls, w)"
    "spec_construct_db (watched book A) lp dp crs (ls, w) = spec_construct_db A lp dp crs (ls, w)"
  using make_watched [OF _ assms] stdair_law
  by (simp_all add: spec_construct_def spec_construct_db_def watched_defs)

text \<open>A constructor of the watched components, and one of the components, that agree.\<close>

lemma constructor_watched:
  assumes "book w \<noteq> None"
  shows "(\<exists>m. spec_constructor (watched book A) m \<and> m (ls, w) = e)
    \<longleftrightarrow> (\<exists>m. spec_constructor A m \<and> m (ls, w) = e)"
  using constructors_watched [OF assms] shared_watched [OF assms]
  by (metis spec_constructor.simps)

lemma crew_alive:
  assumes "in_order c (hs, ls, w)" and "h \<in> set hs" and "x \<in> set (crew_pointers h)"
  shows "alive x (book w)"
proof -
  have "x \<in># mset (concat (map crew_pointers hs)) + mset ls" using assms(2,3) by auto
  then show ?thesis using assms(1) by (simp add: in_order_def alive_def owing_def)
qed

lemma call_watched:
  assumes "in_order c (hs, ls, w)" and "h \<in> set hs"
  shows "spec_call (watched book A) h k w = spec_call A h k w"
  using spec_call_alike [OF other_law, of h k] crew_alive [OF assms] by (simp add: alike_def)

text \<open>The state machine makes the same steps with the components and with the watched ones.\<close>

lemma step_watched:
  assumes "in_order c u"
  shows "spec_step (watched book A) e u v \<longleftrightarrow> spec_step A e u v"
proof -
  obtain hs ls w where u: "u = (hs, ls, w)" by (cases u)
  have "book w \<noteq> None" using assms by (simp add: u in_order_def owing_def)
  note ctor = constructor_watched [OF this]
  note call = call_watched [OF assms [unfolded u]]
  show ?thesis
  proof (cases e)
    case Construct
    then show ?thesis unfolding u Construct spec_new_iff using ctor by blast
  next
    case Construct_Fails
    then show ?thesis unfolding u Construct_Fails spec_fails_iff using ctor by blast
  next
    case (Call k r)
    show ?thesis unfolding u Call spec_called_iff using call by metis
  qed (simp_all add: u spec_gone_iff spec_clean_iff)
qed

lemma runs_watched:
  assumes "in_order c u"
  shows "runs (spec_step (watched book A)) evs u v \<longleftrightarrow> runs (spec_step A) evs u v"
proof (induction evs arbitrary: v rule: rev_induct)
  case (snoc e evs)
  then show ?case
    using step_watched runs_in_order [OF _ assms] by (metis runs_snocE runs_snoc)
next
  case Nil
  show ?case by (auto elim!: runs_NilE intro: runs_Nil)
qed

end

section \<open>The batch program\<close>

lemma serving_alike:
  assumes A: "discreet book A" and P: "discreet_batch book P"
  shows "alike book (set (crew_pointers h))
    (seqM (spec_load (watched book A) cfg h) (spec_book (watched book A) P cfg h))
    (seqM (spec_load A cfg h) (spec_book A P cfg h))"
proof -
  have "alike book (set (crew_pointers h)) (spec_solution (watched book A) P cfg h q t)
      (spec_solution A P cfg h q t)" for q t
    unfolding spec_solution_def
    using P by (cases "fareOptionList t")
      (auto simp: discreet_batch_def intro!: alike_intros alike_same front_discreet
        spec_requests_alike [OF A] discreetD [OF A] keeps_intros simp del: run_simps)
  then show ?thesis
    unfolding spec_load_def spec_book_def
    by (auto simp: watched_defs intro!: alike_intros alike_same alike_plan [OF A] plans_call_crew
        crew_called front_discreet spec_requests_alike [OF A] discreetD [OF A] keeps_intros
        simp del: run_simps)
qed

context bookkeeping
begin

lemma batch_watched:
  assumes P: "discreet_batch book P" and "book w \<noteq> None"
  shows "spec_batch (watched book A) P cfg w = spec_batch A P cfg w"
proof -
  let ?lp = "\<lparr>logLevel = ''DEBUG'', logStream = ioLogFilename cfg\<rparr>"
  let ?serve = "\<lambda>A h. finally_do (give_back A (crew_pointers h))
    (seqM (spec_load A cfg h) (spec_book A P cfg h))"
  have ctor: "unaccounted (spec_construct (watched book A) ?lp ''1P'') x
      = unaccounted (spec_construct A ?lp ''1P'') x" if "book x \<noteq> None" for x
    using constructors_watched(1) [OF that] by (simp add: unaccounted_def)
  have serve: "?serve (watched book A) h v = ?serve A h v"
    if x: "book x = Some c" "unaccounted (spec_construct A ?lp ''1P'') x = (Ret h, v)" for x h v c
  proof -
    obtain ls where "spec_construct A ?lp ''1P'' ([], x) = (Ret h, ls, v)"
      using x(2) by (auto simp: unaccounted_def split: prod.splits)
    from constructor_settled [OF spec_log this, of c "{#}"] x(1)
    have "book v = owing c (mset (crew_pointers h))" by (simp add: settled_def)
    then have "\<forall>y \<in> set (crew_pointers h). alive y (book v)" by (simp add: alive_def owing_def)
    with serving_alike [OF other_law P, of h cfg] show ?thesis
      by (simp add: alike_def finally_do_def)
  qed
  have "seqM (log_open P (ioLogFilename cfg))
        (bindM (unaccounted (spec_construct (watched book A) ?lp ''1P'')) (?serve (watched book A))) w
      = seqM (log_open P (ioLogFilename cfg))
        (bindM (unaccounted (spec_construct A ?lp ''1P'')) (?serve A)) w"
  proof (rule seq_same)
    fix x assume "log_open P (ioLogFilename cfg) w = (Ret (), x)"
    then obtain c where c: "book x = Some c"
      using assms keepsD [of book "log_open P (ioLogFilename cfg)" w "Ret ()" x]
      by (auto simp: discreet_batch_def)
    then show "bindM (unaccounted (spec_construct (watched book A) ?lp ''1P''))
        (?serve (watched book A)) x
      = bindM (unaccounted (spec_construct A ?lp ''1P'')) (?serve A) x"
      using ctor [of x] serve [OF c] by (intro bind_same) simp_all
  qed
  then show ?thesis by (simp add: spec_batch_def finally_do_def)
qed

end

lemma main_watched:
  assumes "snd w = Some c"
  shows "spec_main B (watched snd (with_ledger A)) (batch_with_ledger P) argv (w, out, err)
    = spec_main B (with_ledger A) (batch_with_ledger P) argv (w, out, err)"
  unfolding spec_main_def
proof (rule bind_same [OF refl])
  fix x t
  assume run: "spec_options B (batch_with_ledger P) argv empty_configuration (w, out, err)
    = (Ret x, t)"
  obtain v out' err' where t: "t = (v, out', err')" by (cases t)
  have "snd v = snd w" using keepsD [OF options_ledger run] by (simp add: t)
  with assms ledger.batch_watched [OF batch_discreet, of v]
  show "(case x of (status, cfg) \<Rightarrow> if status = K_SIMCRS_EARLY_RETURN_STATUS then ret 0
        else (\<lambda>(w, out, err). case spec_batch (watched snd (with_ledger A)) (batch_with_ledger P)
          cfg w of (r, w') \<Rightarrow> (r, w', out, err))) t
    = (case x of (status, cfg) \<Rightarrow> if status = K_SIMCRS_EARLY_RETURN_STATUS then ret 0
        else (\<lambda>(w, out, err). case spec_batch (with_ledger A) (batch_with_ledger P) cfg w of
          (r, w') \<Rightarrow> (r, w', out, err))) t"
    by (cases x) (simp add: t)
qed

section \<open>Properties\<close>

text \<open>
  C7. No event of any history uses a dead service: the histories of a process, with the
  replies of their calls, the handlers of its services and the state that they leave, are the
  same when every call to a service on which no shared pointer is left, and every constructor
  that is given such a pointer, is a fault.
\<close>

theorem histories_use_live_services:
  "(\<exists>v. trace (watched snd (with_ledger A)) evs ([], fresh_state (w, Some c)) v \<and> staff v = b)
   \<longleftrightarrow> (\<exists>v. trace (with_ledger A) evs ([], fresh_state (w, Some c)) v \<and> staff v = b)"
proof -
  have "ledger.in_order c ([], [], w, Some c)" by (simp add: ledger.in_order_def)
  from ledger.runs_watched [OF this] show ?thesis by (simp only: fresh_runs)
qed

text \<open>
  C10. The batch program uses no dead service: with watched components it ends with the same
  outcome, the same effect on the other components and the same output, whatever its options
  are and whatever the other components do.
\<close>

theorem main_uses_live_services:
  assumes "mem_ok s" and "snd (world s) = Some c"
    and "simcrs_main B (with_ledger A) (batch_with_ledger P) argv s = (r, t)"
    and "simcrs_main B (watched snd (with_ledger A)) (batch_with_ledger P) argv s = (q, u)"
  shows "q = r \<and> outside u = outside t"
  using main_mirrors [OF assms(1), of B "with_ledger A" "batch_with_ledger P" argv]
    main_mirrors [OF assms(1), of B "watched snd (with_ledger A)" "batch_with_ledger P" argv]
    main_watched [OF assms(2)] assms(3,4)
  by (metis (mono_tags, lifting) case_prod_conv outside_def prod.inject)

theorem main_uses_live_services_witness:
  "fst (simcrs_main sample_build (watched snd (with_ledger (echo_apis (\<lambda>_. True) [one_solution])))
     (batch_with_ledger (sample_batch [''builtin'' \<mapsto> []])) [] ledger_process) = Ret 0"
proof -
  obtain t where t: "simcrs_main sample_build (with_ledger (echo_apis (\<lambda>_. True) [one_solution]))
      (batch_with_ledger (sample_batch [''builtin'' \<mapsto> []])) [] ledger_process = (Ret 0, t)"
    using ledger_main by blast
  obtain q u where u: "simcrs_main sample_build
      (watched snd (with_ledger (echo_apis (\<lambda>_. True) [one_solution])))
      (batch_with_ledger (sample_batch [''builtin'' \<mapsto> []])) [] ledger_process = (q, u)"
    by fastforce
  from main_uses_live_services [OF mem_ok_ledger_process ledger_process_book t u] u
  show ?thesis by simp
qed

end
