(* ===== verification/CRS_Sales.thy ===== *)
theory CRS_Sales
  imports CRS_Distribution
begin

text \<open>
  What can be relied on when a sale is made (\<open>simcrs/command/DistributionManager.cpp\<close>): how
  much it can ask of the inventory, however it ends, and for which solutions its answer tells
  whether the seats were sold, and when selling by class identity and by segment key agree.
\<close>

section \<open>Bounds\<close>

text \<open>
  The number of segments that a sale walks through: those of the class identities when there
  are any, those of the segment path otherwise.
\<close>

definition saleSegments :: "travel_solution \<Rightarrow> nat" where
  "saleSegments t = (if classObjectIDMapHolder t \<noteq> [] then length (classObjectIDMapHolder t)
     else length (segmentPath t))"

lemma script_by_id_length: "length (fst (script_by_id ms cls)) \<le> min (length ms) (length cls)"
  by (induction ms cls rule: script_by_id.induct) (auto split: option.split)

lemma script_by_key_length: "length (fst (script_by_key ks cls)) \<le> min (length ks) (length cls)"
  by (induction ks cls rule: script_by_key.induct) auto

lemma sale_script_length:
  "length (fst (sale_script t))
     \<le> min (saleSegments t) (length (classPath (chosenFareOption t)))"
  using script_by_id_length script_by_key_length by (simp add: sale_script_def saleSegments_def)

lemma mapM_metered:
  assumes "\<And>x s. meter (snd (f x s)) \<le> meter s + (k :: nat)"
  shows "meter (snd (mapM f xs s)) \<le> meter s + k * length xs"
proof (induction xs arbitrary: s)
  case Nil
  then show ?case by simp
next
  case (Cons x xs)
  obtain r t where run: "f x s = (r, t)" by fastforce
  with assms [of x s] have "meter t \<le> meter s + k" by simp
  moreover have "meter (snd (mapM f xs t)) \<le> meter t + k * length xs" by (rule Cons.IH)
  ultimately show ?case
    by (cases r; cases "mapM f xs t") (auto simp: bindM_cases run split: outcome.split)
qed

lemma run_script_state:
  "snd (run_script A ai n sc ok w) = snd (mapM (submit A ai n) (fst sc) w)"
  by (simp add: run_script_def bindM_cases split: prod.split outcome.split option.split)

text \<open>
  C25. A sale asks for no more than one block of seats per segment, however it ends. Whatever
  quantity is measured on the other components (seats taken, requests received), if one
  request adds at most \<open>k\<close> to it, the whole sale adds at most \<open>k\<close> per segment, and at most \<open>k\<close>
  per class list of the chosen fare: also when it throws, when it stops on a solution that is
  not well formed, and for solutions of any shape.
\<close>

theorem sale_bounded_by_segments:
  assumes "\<And>r v. meter (snd (submit A ai n r v)) \<le> meter v + k"
  shows "meter (snd (DistributionManager_sell A ai t n w))
    \<le> meter w + k * min (saleSegments t) (length (classPath (chosenFareOption t)))"
proof -
  have "meter (snd (DistributionManager_sell A ai t n w))
      \<le> meter w + k * length (fst (sale_script t))"
    unfolding sell_runs_script run_script_state by (rule mapM_metered) (rule assms)
  also have "\<dots> \<le> meter w + k * min (saleSegments t) (length (classPath (chosenFareOption t)))"
    using sale_script_length [of t] by simp
  finally show ?thesis .
qed

theorem sale_bounded_by_segments_witness:
  "length (fst (snd (DistributionManager_sell (echo_apis (\<lambda>_. True) []) 7 two_segments 3 ([], 0))))
     \<le> 2"
proof -
  have "length (fst (snd (submit (echo_apis (\<lambda>_. True) []) 7 3 r v))) \<le> length (fst v) + 1" for r v
    by (cases r; cases v) (simp_all add: echo_apis_def)
  from sale_bounded_by_segments [where meter = "\<lambda>v. length (fst v)", OF this, of two_segments "([], 0)"]
  show ?thesis by (simp add: saleSegments_def two_segments_def)
qed

section \<open>When the answer can be trusted\<close>

definition all_sold :: "bool list \<Rightarrow> bool" where
  "all_sold bs \<longleftrightarrow> bs \<noteq> [] \<and> list_all (\<lambda>b. b) bs"

text \<open>
  An inventory that refuses its first request and accepts all later ones; it counts the
  requests it gets.
\<close>

definition refuse_first :: "nat apis \<Rightarrow> nat apis" where
  "refuse_first A = A\<lparr>airinvA := (airinvA A)\<lparr>
     airinv_sell_id := \<lambda>_ _ _ w. (Ret (w \<noteq> 0), Suc w),
     airinv_sell_key := \<lambda>_ _ _ _ w. (Ret (w \<noteq> 0), Suc w)\<rparr>\<rparr>"

lemma refuse_first_answers:
  "mapM (submit (refuse_first A) ai n) rs w
     = (Ret (map (\<lambda>i. i \<noteq> 0) [w..<w + length rs]), w + length rs)"
proof (induction rs arbitrary: w)
  case Nil
  then show ?case by simp
next
  case (Cons r rs)
  have "submit (refuse_first A) ai n r w = (Ret (w \<noteq> 0), Suc w)"
    by (cases r) (simp_all add: refuse_first_def)
  with Cons.IH [of "Suc w"] show ?case
    by (simp add: bindM_cases upt_conv_Cons del: upt_Suc)
qed

lemma last_is_all:
  assumes "length bs \<le> 1"
  shows "last (False # bs) = all_sold bs"
  using assms by (cases bs) (auto simp: all_sold_def)

text \<open>
  C13. A sale tells whether all the seats were sold only for solutions of a single request:
  for a well-formed solution, its answer is "every request was accepted" in all environments
  exactly when there is at most one request. As soon as there are two segments, some inventory
  refuses one of them and the sale is reported as successful.
\<close>

theorem sale_answer_trusted_iff:
  assumes "sellable t"
  shows "(\<forall>(A :: nat apis) ai n w bs v.
      mapM (submit A ai n) (sale_requests t) w = (Ret bs, v) \<longrightarrow>
      DistributionManager_sell A ai t n w = (Ret (all_sold bs), v))
    \<longleftrightarrow> length (sale_requests t) \<le> 1"
proof
  assume trusted: "\<forall>(A :: nat apis) ai n w bs v.
      mapM (submit A ai n) (sale_requests t) w = (Ret bs, v) \<longrightarrow>
      DistributionManager_sell A ai t n w = (Ret (all_sold bs), v)"
  show "length (sale_requests t) \<le> 1"
  proof (rule ccontr)
    assume long: "\<not> length (sale_requests t) \<le> 1"
    let ?A = "refuse_first undefined" and ?k = "length (sale_requests t)"
    let ?bs = "map (\<lambda>i. i \<noteq> 0) [0..<?k]"
    have run: "mapM (submit ?A 0 0) (sale_requests t) 0 = (Ret ?bs, ?k)"
      using refuse_first_answers [of undefined 0 0 "sale_requests t" 0] by simp
    have "0 \<in> set [0..<?k]" using long by (cases "sale_requests t") auto
    then have "\<not> all_sold ?bs" by (auto simp: all_sold_def list_all_iff)
    moreover have "last (False # ?bs)" using long by (auto simp: last_map last_upt)
    moreover have "DistributionManager_sell ?A 0 t 0 0 = (Ret (last (False # ?bs)), ?k)"
      using run by (simp only: sell_runs_script sale_script_sellable [OF assms]
          sales.loop_latest bindM_cases) simp
    ultimately show False using trusted run by auto
  qed
next
  assume "length (sale_requests t) \<le> 1"
  then show "\<forall>(A :: nat apis) ai n w bs v.
      mapM (submit A ai n) (sale_requests t) w = (Ret bs, v) \<longrightarrow>
      DistributionManager_sell A ai t n w = (Ret (all_sold bs), v)"
    using last_is_all mapM_length
    by (fastforce simp: sell_runs_script sale_script_sellable [OF assms] sales.loop_latest
        bindM_cases simp del: last.simps)
qed

theorem sale_answer_trusted_iff_witness:
  "\<not> (\<forall>(A :: nat apis) ai n w bs v.
      mapM (submit A ai n) (sale_requests two_segments) w = (Ret bs, v) \<longrightarrow>
      DistributionManager_sell A ai two_segments n w = (Ret (all_sold bs), v))"
proof -
  have "sellable two_segments"
    by (simp add: sellable_iff sale_script_def two_segments_def)
  from sale_answer_trusted_iff [OF this] show ?thesis
    by (simp add: sale_requests_def two_segments_def)
qed

section \<open>The two ways to sell\<close>

text \<open>
  A condition on the inventory and the solution: every segment carries class identities, and
  for AirInv a request by the identity of the class that the fare option chooses on a segment
  is the request by the key of the segment and the code of that class.
\<close>

definition ids_match :: "'w apis \<Rightarrow> svc \<Rightarrow> NbOfSeats_T \<Rightarrow> travel_solution \<Rightarrow> bool" where
  "ids_match A ai n t \<longleftrightarrow>
     length (classObjectIDMapHolder t) = length (segmentPath t) \<and>
     (\<forall>i < length (segmentPath t).
        let code = [hd (classPath (chosenFareOption t) ! i)] in
        airinv_sell_id (airinvA A) ai (the ((classObjectIDMapHolder t ! i) code)) n
        = airinv_sell_key (airinvA A) ai (segmentPath t ! i) code n)"

lemma mapM_pointwise:
  assumes "length xs = length ys" "\<And>i. i < length ys \<Longrightarrow> f (xs ! i) = g (ys ! i)"
  shows "mapM f xs = mapM g ys"
  using assms
proof (induction xs ys rule: list_induct2)
  case (Cons x xs y ys)
  have "f x = g y" using Cons.prems [of 0] by simp
  moreover have "mapM f xs = mapM g ys" using Cons.IH Cons.prems [of "Suc i" for i] by fastforce
  ultimately show ?case by (simp del: run_simps)
qed simp

lemma sellable_by_key:
  assumes "sellable t" "length (classObjectIDMapHolder t) = length (segmentPath t)"
  shows "sellable (t\<lparr>classObjectIDMapHolder := []\<rparr>)"
  using assms by (auto simp: sellable_def Let_def split: if_splits)

text \<open>
  C38. The two loops of a sale are interchangeable: for a well-formed solution whose class
  identities denote the classes of its segments, dropping the identities (so that the sale
  goes by segment key and class code) changes neither the answer nor what the inventory sees.
\<close>

theorem sale_by_id_or_key:
  assumes "sellable t" and "ids_match A ai n t"
  shows "DistributionManager_sell A ai t n
    = DistributionManager_sell A ai (t\<lparr>classObjectIDMapHolder := []\<rparr>) n"
proof (cases "classObjectIDMapHolder t = []")
  case True
  then have "t\<lparr>classObjectIDMapHolder := []\<rparr> = t" by (cases t) simp
  then show ?thesis by simp
next
  case False
  let ?u = "t\<lparr>classObjectIDMapHolder := []\<rparr>" and ?cls = "classPath (chosenFareOption t)"
  have len: "length (classObjectIDMapHolder t) = length (segmentPath t)"
    using assms(2) by (simp add: ids_match_def)
  have enough: "length (segmentPath t) \<le> length ?cls"
    using assms(1) False len by (simp add: sellable_def Let_def)
  have "mapM (submit A ai n) (sale_requests t) = mapM (submit A ai n) (sale_requests ?u)"
    by (rule mapM_pointwise)
      (use False len enough assms(2) in \<open>auto simp: sale_requests_def ids_match_def Let_def\<close>)
  then show ?thesis
    by (simp only: sell_runs_script sale_script_sellable [OF assms(1)]
        sale_script_sellable [OF sellable_by_key [OF assms(1) len]] sales.loop_latest)
qed

theorem sale_by_id_or_key_witness:
  "DistributionManager_sell ((echo_apis (\<lambda>_. True) [])\<lparr>airinvA :=
       (airinvA (echo_apis (\<lambda>_. True) []))\<lparr>airinv_sell_id := \<lambda>x c n. note_call ''sell'' x (c = 1),
         airinv_sell_key := \<lambda>x k c n. note_call ''sell'' x (k = ''BA1'')\<rparr>\<rparr>) 7 two_segments 3
   = DistributionManager_sell ((echo_apis (\<lambda>_. True) [])\<lparr>airinvA :=
       (airinvA (echo_apis (\<lambda>_. True) []))\<lparr>airinv_sell_id := \<lambda>x c n. note_call ''sell'' x (c = 1),
         airinv_sell_key := \<lambda>x k c n. note_call ''sell'' x (k = ''BA1'')\<rparr>\<rparr>) 7
       (two_segments\<lparr>classObjectIDMapHolder := []\<rparr>) 3"
proof (rule sale_by_id_or_key)
  show "sellable two_segments"
    by (simp add: sellable_iff sale_script_def two_segments_def)
qed (auto simp: ids_match_def two_segments_def less_Suc_eq)

end
