(* ===== verification/CRS_Offers.thy ===== *)
theory CRS_Offers
  imports CRS_Program
begin

text \<open>
  What can stop the batch program on an assertion or an undefined step. As long as the other
  components do not abort, only the offers can: the solutions that the fare quote gives back.
\<close>

section \<open>Programs that stop on certain faults only\<close>

definition halts_in :: "fault set \<Rightarrow> ('s, 'a) prog \<Rightarrow> bool" where
  "halts_in F m \<longleftrightarrow> (\<forall>s b. fst (m s) = Halt b \<longrightarrow> b \<in> F)"

named_theorems halts_intros "programs that stop on certain faults only"

lemma halts_in_quiet: "no_halt m \<Longrightarrow> halts_in F m"
  unfolding halts_in_def no_halt_iff by (metis is_halt_simps(3))

lemma halts_in_prims [halts_intros]:
  "halts_in F (ret x)" "halts_in F (modS f)" "b \<in> F \<Longrightarrow> halts_in F (halt b)"
  by (simp_all add: halts_in_def)

lemma halts_in_bindM [halts_intros]:
  assumes "halts_in F m" "\<And>x. halts_in F (f x)"
  shows "halts_in F (bindM m f)"
  unfolding halts_in_def
proof (intro allI impI)
  fix s b
  obtain r t where t: "m s = (r, t)" by fastforce
  assume "fst (bindM m f s) = Halt b"
  with t have "r = Halt b \<or> (\<exists>x. r = Ret x \<and> fst (f x t) = Halt b)"
    by (cases r) (simp_all add: bindM_cases)
  with t assms show "b \<in> F" unfolding halts_in_def by (metis fst_conv)
qed

lemma halts_in_seqM [halts_intros]: "halts_in F m \<Longrightarrow> halts_in F n \<Longrightarrow> halts_in F (seqM m n)"
  unfolding seqM_def by (intro halts_intros)

lemma halts_in_if [halts_intros]:
  "(b \<Longrightarrow> halts_in F m) \<Longrightarrow> (\<not> b \<Longrightarrow> halts_in F n) \<Longrightarrow> halts_in F (if b then m else n)"
  by simp

lemma halts_in_mapM [halts_intros]: "(\<And>x. halts_in F (f x)) \<Longrightarrow> halts_in F (mapM f xs)"
  by (induction xs) (auto intro!: halts_intros simp del: run_simps)

lemma halts_in_finally [halts_intros]: "halts_in F m \<Longrightarrow> halts_in F (finally_do f m)"
  by (simp add: halts_in_def)

lemma halts_in_local [halts_intros]: "halts_in F m \<Longrightarrow> halts_in F (with_local v m)"
  unfolding halts_in_def with_local_def by (auto split: prod.splits outcome.splits) (metis fst_conv)

lemma halts_in_beside [halts_intros]: "halts_in F m \<Longrightarrow> halts_in F (beside_ref m)"
  unfolding halts_in_def beside_ref_def by (auto split: prod.splits) (metis fst_conv)

lemma halts_in_unaccounted [halts_intros]: "halts_in F m \<Longrightarrow> halts_in F (unaccounted m)"
  unfolding halts_in_def unaccounted_def by (auto split: prod.splits) (metis fst_conv)

section \<open>What does not stop\<close>

text \<open>The constructors of the other components return or throw.\<close>

definition quiet_makes :: "'w apis \<Rightarrow> bool" where
  "quiet_makes A \<longleftrightarrow> (\<forall>lp. no_halt (stdair_make (stdairA A) lp)) \<and>
     (\<forall>p. no_halt (simfqt_make (simfqtA A) p)) \<and> (\<forall>p. no_halt (airtsp_make (airtspA A) p)) \<and>
     (\<forall>p. no_halt (airinv_make (airinvA A) p))"

lemma hire_halts [halts_intros]:
  "halts_in F mk \<Longrightarrow> halts_in F (spec_hire A st held mk)"
  unfolding halts_in_def spec_hire_def by (auto split: prod.splits outcome.splits) (metis fst_conv)

lemma construct_halts:
  assumes "quiet_makes A"
  shows "halts_in F (spec_construct A lp crs)"
  unfolding spec_construct_def spec_own_def spec_local_def spec_attach_def spec_crew_def
    spec_inventory_def if_True
  using assms by (intro halts_intros) (auto simp: quiet_makes_def intro: halts_in_quiet)

lemma calls_halt: "quiet A \<Longrightarrow> halts_in F (run_calls A ks)"
proof (induction ks)
  case (Cons k ks)
  have "no_halt (run_call A k)"
    using Cons.prems by (cases k) (auto simp: run_call_def quiet_defs no_halt_def
        intro!: settles_intros)
  from halts_in_seqM [OF halts_in_quiet [OF this] Cons.IH [OF Cons.prems]] show ?case by simp
qed (simp add: halts_in_def)

lemma timed_halts [halts_intros]:
  assumes "quiet A" "\<And>x. halts_in F (note x)" "halts_in F m"
  shows "halts_in F (timed A h label note m)"
  unfolding timed_def by (intro halts_intros assms(2,3) halts_in_quiet quiet_utilD assms(1))

section \<open>The offers\<close>

text \<open>
  What the program does with the offers: it takes the first one with its first fare option,
  and the sale runs the script of the solution. The fault on the way, if there is one.
\<close>

definition fault_of_offers :: "travel_solution list \<Rightarrow> fault option" where
  "fault_of_offers us = (case us of [] \<Rightarrow> Some (Undefined Empty_front)
     | t # _ \<Rightarrow> (case fareOptionList t of [] \<Rightarrow> None
       | fo # _ \<Rightarrow> if segmentPath t = [] then Some (Undefined Empty_front)
                  else snd (sale_script (t\<lparr>chosenFareOption := fo\<rparr>))))"

text \<open>
  The program up to its offers: the request, and the solutions with their prices, if the
  schedule has found any.
\<close>

definition spec_offers_for ::
  "'w apis \<Rightarrow> configuration \<Rightarrow> crew \<Rightarrow> ('w, booking_request \<times> travel_solution list option) prog"
where
  "spec_offers_for A cfg h = seqM (spec_load A cfg h)
     (bindM (stdair_buildSampleBookingRequest (stdairA A) (stdairH h) True) (\<lambda>q.
      bindM (spec_paths A h q) (\<lambda>ts.
      if ts = [] then ret (q, None) else bindM (spec_quote A h q ts) (\<lambda>us. ret (q, Some us)))))"

definition main_offers ::
  "build_config \<Rightarrow> 'w apis \<Rightarrow> 'w batch_api \<Rightarrow> string list
   \<Rightarrow> ('w outside, travel_solution list option) prog" where
  "main_offers B A P argv = bindM (spec_options B P argv empty_configuration) (\<lambda>(status, cfg).
     if status = K_SIMCRS_EARLY_RETURN_STATUS then ret None
     else (\<lambda>(w, out, err). case seqM (log_open P (ioLogFilename cfg))
         (bindM (unaccounted (spec_construct A
            \<lparr>logLevel = ''DEBUG'', logStream = ioLogFilename cfg\<rparr> ''1P'')) (\<lambda>h.
          bindM (spec_offers_for A cfg h) (\<lambda>(q, us). ret us))) w of
       (r, w') \<Rightarrow> (r, w', out, err)))"

fun with_offers ::
  "'w apis \<Rightarrow> 'w batch_api \<Rightarrow> configuration \<Rightarrow> crew
   \<Rightarrow> booking_request \<times> travel_solution list option \<Rightarrow> ('w, int) prog" where
  "with_offers A P cfg h (q, None) = seqM (log_error (utilA A)
     (''No travel solution has been found for: '' @ display_request (utilA A) q)) (ret (-1))"
| "with_offers A P cfg h (q, Some us) = bindM (front us) (spec_solution A P cfg h q)"

lemma serving_offers:
  "seqM (spec_load A cfg h) (spec_book A P cfg h)
   = bindM (spec_offers_for A cfg h) (with_offers A P cfg h)"
proof (rule ext)
  fix w
  show "seqM (spec_load A cfg h) (spec_book A P cfg h) w
      = bindM (spec_offers_for A cfg h) (with_offers A P cfg h) w"
    unfolding spec_offers_for_def spec_book_def
    by (auto simp: bindM_cases seqM_cases split: prod.split outcome.split)
qed

lemma search_halts:
  assumes "quiet A"
  shows "halts_in F (spec_offers_for A cfg h)"
proof -
  have q: "no_halt (stdair_buildSampleBookingRequest (stdairA A) x b)"
    "no_halt (airtsp_buildSegmentPathList (airtspA A) y r)"
    "no_halt (simfqt_quotePrices (simfqtA A) z r)" for x b y z r
    using assms by (simp_all add: quiet_defs)
  show ?thesis
    unfolding spec_offers_for_def spec_load_def spec_paths_def spec_quote_def
    by (intro halts_intros calls_halt halts_in_quiet [OF q(1)] halts_in_quiet [OF q(2)]
        halts_in_quiet [OF q(3)] assms)
qed

lemma script_halts:
  assumes "quiet A" "snd sc = None \<or> (\<exists>b \<in> F. snd sc = Some b)"
  shows "halts_in F (run_script A ai n sc ok)"
  unfolding run_script_def
  by (intro halts_in_bindM halts_in_mapM halts_in_quiet [OF quiet_submit [OF assms(1)]])
    (use assms(2) in \<open>auto simp: halts_in_def\<close>)

lemma offers_halt:
  assumes "quiet A" "quiet_batch P"
  shows "halts_in (set_option (Option.bind us fault_of_offers)) (with_offers A P cfg h (q, us))"
proof (cases us)
  case None
  show ?thesis
    unfolding None with_offers.simps
    by (intro halts_intros halts_in_quiet quiet_utilD assms(1))
next
  case (Some vs)
  have close: "no_halt (log_close P f)" for f using assms(2) by (simp add: quiet_batch_def)
  have csv: "no_halt (stdair_getBomRoot (stdairA A) x)" "no_halt (stdair_csvDisplay (stdairA A) x r)"
    for x r using assms(1) by (simp_all add: quiet_defs)
  show ?thesis
  proof (cases vs)
    case Nil
    show ?thesis
      unfolding Some Nil by (simp add: fault_of_offers_def halts_in_def)
  next
    case (Cons t ts)
    let ?F = "set_option (fault_of_offers vs)"
    have "halts_in ?F (spec_solution A P cfg h q t)"
    proof (cases "fareOptionList t")
      case Nil
      then show ?thesis
        unfolding spec_solution_def Nil list.case
        by (intro halts_intros halts_in_quiet quiet_utilD assms(1))
    next
      case fo: (Cons fo fos)
      show ?thesis
      proof (cases "segmentPath t")
        case Nil
        then show ?thesis
          by (simp add: spec_solution_def fo Cons fault_of_offers_def halts_in_def)
      next
        case ks: (Cons k ks)
        have F: "?F = set_option (snd (sale_script (t\<lparr>chosenFareOption := fo\<rparr>)))"
          by (simp add: Cons fault_of_offers_def fo ks)
        have sell: "halts_in ?F (spec_sell A h (t\<lparr>chosenFareOption := fo\<rparr>) 3)"
          unfolding spec_sell_def F
          by (intro halts_intros script_halts halts_in_quiet quiet_utilD assms(1))
            (cases "snd (sale_script (t\<lparr>chosenFareOption := fo\<rparr>))"; simp)
        have shown: "halts_in ?F (spec_csv A h)"
          unfolding spec_csv_def by (intro halts_intros halts_in_quiet csv)
        have first: "halts_in ?F (front (k # ks))" by (simp add: halts_in_def)
        show ?thesis
          unfolding spec_solution_def fo list.case ks
          by (intro halts_intros first sell shown halts_in_quiet quiet_utilD assms(1) close)
      qed
    qed
    then show ?thesis by (simp add: Some Cons)
  qed
qed

text \<open>A run that stops has got its offers, and they have the fault.\<close>

lemma bindM_stops:
  assumes "fst (bindM m f w) = Halt b" and "halts_in {} m"
  obtains x v where "m w = (Ret x, v)" "fst (f x v) = Halt b"
proof -
  obtain r v where v: "m w = (r, v)" by fastforce
  with assms that show thesis by (cases r) (auto simp: bindM_cases halts_in_def dest: spec [of _ w])
qed

lemma batch_stops:
  assumes "quiet A" "quiet_makes A" "quiet_batch P"
    and "fst (spec_batch A P cfg w) = Halt b"
  shows "\<exists>us v. seqM (log_open P (ioLogFilename cfg))
      (bindM (unaccounted (spec_construct A
         \<lparr>logLevel = ''DEBUG'', logStream = ioLogFilename cfg\<rparr> ''1P'')) (\<lambda>h.
       bindM (spec_offers_for A cfg h) (\<lambda>(q, us). ret us))) w = (Ret (Some us), v) \<and>
    fault_of_offers us = Some b"
proof -
  let ?lp = "\<lparr>logLevel = ''DEBUG'', logStream = ioLogFilename cfg\<rparr>"
  have "no_halt (log_open P f)" for f using assms(3) by (simp add: quiet_batch_def)
  note quiet = halts_in_quiet [OF this] halts_in_unaccounted [OF construct_halts [OF assms(2)]]
    search_halts [OF assms(1)]
  have s0: "fst (bindM (log_open P (ioLogFilename cfg)) (\<lambda>_.
      bindM (unaccounted (spec_construct A ?lp ''1P'')) (\<lambda>h.
        finally_do (give_back A (crew_pointers h))
          (seqM (spec_load A cfg h) (spec_book A P cfg h)))) w) = Halt b"
    using assms(4) by (simp add: spec_batch_def seqM_def [of "log_open P f" for f] del: run_simps)
  obtain x w1 where 1: "log_open P (ioLogFilename cfg) w = (Ret x, w1)"
    and s1: "fst (bindM (unaccounted (spec_construct A ?lp ''1P'')) (\<lambda>h.
      finally_do (give_back A (crew_pointers h))
        (seqM (spec_load A cfg h) (spec_book A P cfg h))) w1) = Halt b"
    by (rule bindM_stops [OF s0 quiet(1)])
  obtain h w2 where 2: "unaccounted (spec_construct A ?lp ''1P'') w1 = (Ret h, w2)"
    and s2: "fst (bindM (spec_offers_for A cfg h) (with_offers A P cfg h) w2) = Halt b"
    using bindM_stops [OF s1 quiet(2)] by (auto simp: serving_offers)
  obtain y w3 where 3: "spec_offers_for A cfg h w2 = (Ret y, w3)"
    and s3: "fst (with_offers A P cfg h y w3) = Halt b"
    by (rule bindM_stops [OF s2 quiet(3)])
  obtain q us where y: "y = (q, us)" by (cases y)
  have "b \<in> set_option (Option.bind us fault_of_offers)"
    using s3 offers_halt [OF assms(1,3), of us cfg h q] unfolding y halts_in_def by blast
  then have "Option.bind us fault_of_offers = Some b" by (rule elem_set [THEN iffD1])
  then obtain vs where "us = Some vs" "fault_of_offers vs = Some b"
    by (auto simp: bind_eq_Some_conv)
  with 1 2 3 y show ?thesis by (simp add: seqM_cases bindM_cases)
qed

section \<open>Properties\<close>

text \<open>
  An environment in which the only solution has a fare option and no segment, and the options
  of the sample program in it.
\<close>

definition no_segment :: travel_solution where
  "no_segment = one_solution\<lparr>segmentPath := []\<rparr>"

lemma quiet_makes_echo: "quiet_makes (echo_apis ok sols)"
  by (simp add: quiet_makes_def no_halt_iff echo_apis_def make_svc_def split_paired_all)

lemma quiet_sample_batch: "quiet_batch (sample_batch vm)"
  by (simp add: quiet_batch_def sample_batch_def no_halt_iff note_call_def split_paired_all)

lemma no_segment_main:
  "\<exists>t. simcrs_main sample_build (echo_apis (\<lambda>_. True) [no_segment])
     (sample_batch [''builtin'' \<mapsto> []]) [] sample_process = (Halt (Undefined Empty_front), t)"
  by (simp add: simcrs_main_def readConfiguration_def sample_batch_def sample_process_def
      run_batch_def empty_configuration_def K_SIMCRS_DEFAULT_BUILT_IN_INPUT_def
      K_SIMCRS_EARLY_RETURN_STATUS_def other_options_def other_option_def
      SIMCRS_Service_log_def init_defs creation_defs setter_defs load_def load_inventory_def
      SIMCRS_buildComplementaryLinks_def booking_defs no_segment_def one_solution_def
      DistributionManager_sell_def echo_apis_def SIMCRS_Service_destroy_def finalise_def
      block_defs)

text \<open>
  C35. Only the offers can stop the program on an assertion or an undefined step, whatever its
  options are: when the other components do not abort (they may throw, their constructors
  too) and it stops nevertheless, it had got solutions from the fare quote, and the fault is
  theirs: an empty list, a first solution with a fare option and no segment, or one that the
  script of its sale finds ill-formed.
\<close>

theorem main_stops_at_offers:
  assumes "mem_ok s" and "quiet A" and "quiet_makes A" and "quiet_batch P"
    and "simcrs_main B A P argv s = (Halt b, t)"
  shows "\<exists>us v. main_offers B A P argv (world s, cout s, cerr s) = (Ret (Some us), v) \<and>
    fault_of_offers us = Some b"
proof -
  have "fst (spec_main B A P argv (outside s)) = Halt b"
    using main_mirrors [OF assms(1), of B A P argv] assms(5) by (metis case_prod_conv fst_conv)
  moreover have "halts_in {} (spec_options B P argv empty_configuration)"
    using assms(4) unfolding halts_in_def spec_options_def quiet_batch_def no_halt_iff
    by (auto split: prod.splits outcome.splits option.splits if_splits) (metis fst_conv is_halt_simps(3))
  ultimately obtain x v where 1: "spec_options B P argv empty_configuration (outside s) = (Ret x, v)"
    and rest: "fst ((case x of (status, cfg) \<Rightarrow>
      if status = K_SIMCRS_EARLY_RETURN_STATUS then ret 0
      else (\<lambda>(w, out, err). case spec_batch A P cfg w of (r, w') \<Rightarrow> (r, w', out, err))) v) = Halt b"
    unfolding spec_main_def by (rule bindM_stops)
  obtain status cfg w out err where x: "x = (status, cfg)" "v = (w, out, err)"
    by (cases x; cases v)
  have early: "status \<noteq> K_SIMCRS_EARLY_RETURN_STATUS" and "fst (spec_batch A P cfg w) = Halt b"
    using rest by (auto simp: x split: if_splits prod.splits)
  from batch_stops [OF assms(2-4) this(2)] 1 early show ?thesis
    by (auto simp: main_offers_def bindM_cases x outside_def)
qed

theorem main_stops_at_offers_witness:
  "\<exists>us v. main_offers sample_build (echo_apis (\<lambda>_. True) [no_segment])
     (sample_batch [''builtin'' \<mapsto> []]) [] (([], 0), [], []) = (Ret (Some us), v) \<and>
   fault_of_offers us = Some (Undefined Empty_front)"
proof -
  obtain t where "simcrs_main sample_build (echo_apis (\<lambda>_. True) [no_segment])
     (sample_batch [''builtin'' \<mapsto> []]) [] sample_process = (Halt (Undefined Empty_front), t)"
    using no_segment_main by blast
  from main_stops_at_offers [OF mem_ok_process quiet_echo quiet_makes_echo quiet_sample_batch this]
  show ?thesis by (simp add: sample_process_def)
qed

end
