(* ===== verification/CRS_Streams.thy ===== *)
theory CRS_Streams
  imports CRS_Factories "HOL-Library.Word"
begin

text \<open>
  The stream operators of the base classes (\<open>simcrs/bom/BomAbstract.hpp\<close>,
  \<open>simcrs/service/ServiceAbstract.hpp\<close>), the object identifiers of
  \<open>simcrs/factory/FacBomAbstract.cpp\<close> and the vector operator of \<open>simcrs/batches/simcrs.cpp\<close>.
  An output stream is its text with the part of its format that string insertion uses. The
  hash function of Boost and the \<open>toStream\<close> and \<open>fromStream\<close> of a concrete class are parameters.
\<close>

section \<open>Output streams\<close>

datatype adjustment = Adjust_Left | Adjust_Right | Adjust_Internal

record ostream =
  text_of :: string
  field_width :: nat
  fill_char :: char
  adjust :: adjustment
  good :: bool

text \<open>A new string stream: empty, no width, blank fill, good.\<close>

definition ostringstream :: ostream where
  "ostringstream = \<lparr>text_of = [], field_width = 0, fill_char = CHR '' '', adjust = Adjust_Right,
     good = True\<rparr>"

text \<open>\<open>copyfmt\<close> copies the whole format, the width included, and neither text nor state.\<close>

definition copyfmt :: "ostream \<Rightarrow> ostream \<Rightarrow> ostream" where
  "copyfmt from to = to\<lparr>field_width := field_width from, fill_char := fill_char from,
     adjust := adjust from\<rparr>"

definition set_width :: "nat \<Rightarrow> ostream \<Rightarrow> ostream" where
  "set_width n os = os\<lparr>field_width := n\<rparr>"

definition padded :: "nat \<Rightarrow> char \<Rightarrow> adjustment \<Rightarrow> string \<Rightarrow> string" where
  "padded w f a s = (case a of
      Adjust_Left \<Rightarrow> s @ replicate (w - length s) f
    | _ \<Rightarrow> replicate (w - length s) f @ s)"

text \<open>
  Insertion of a string: padded to the width, which is then reset. Nothing happens on a
  stream that is not good.
\<close>

definition insert_string :: "string \<Rightarrow> ostream \<Rightarrow> ostream" where
  "insert_string s os = (if good os
     then os\<lparr>text_of := text_of os @ padded (field_width os) (fill_char os) (adjust os) s,
             field_width := 0\<rparr>
     else os)"

text \<open>Decimal digits, for the insertion of an unsigned number in a fresh stream.\<close>

definition digit :: "nat \<Rightarrow> char" where
  "digit n = char_of (48 + n)"

fun decimal :: "nat \<Rightarrow> string" where
  "decimal n = (if n < 10 then [digit n] else decimal (n div 10) @ [digit (n mod 10)])"

declare decimal.simps [simp del]

section \<open>The operators of BomAbstract and ServiceAbstract\<close>

definition BomAbstract_output :: "(ostream \<Rightarrow> ostream) \<Rightarrow> ostream \<Rightarrow> ostream" where
  "BomAbstract_output toStream ioOut =
     (let ostr = ostringstream;
          ostr = copyfmt ioOut ostr;
          ostr = set_width 0 ostr;
          ostr = toStream ostr
      in insert_string (text_of ostr) ioOut)"

definition BomAbstract_input :: "('b \<Rightarrow> string \<Rightarrow> 'b \<times> string) \<Rightarrow> 'b \<Rightarrow> string \<Rightarrow> 'b \<times> string" where
  "BomAbstract_input fromStream ioBom ioIn = fromStream ioBom ioIn"

definition ServiceAbstract_toStream :: "ostream \<Rightarrow> ostream" where
  "ServiceAbstract_toStream ioOut = ioOut"

definition ServiceAbstract_fromStream :: "'v \<Rightarrow> string \<Rightarrow> 'v \<times> string" where
  "ServiceAbstract_fromStream this ioIn = (this, ioIn)"

definition ServiceAbstract_output :: "(ostream \<Rightarrow> ostream) \<Rightarrow> ostream \<Rightarrow> ostream" where
  "ServiceAbstract_output toStream ioOut =
     (let ostr = ostringstream;
          ostr = copyfmt ioOut ostr;
          ostr = set_width 0 ostr;
          ostr = toStream ostr
      in insert_string (text_of ostr) ioOut)"

definition ServiceAbstract_input ::
  "('v \<Rightarrow> string \<Rightarrow> 'v \<times> string) \<Rightarrow> 'v \<Rightarrow> string \<Rightarrow> 'v \<times> string" where
  "ServiceAbstract_input fromStream ioService ioIn = fromStream ioService ioIn"

section \<open>Object identifiers\<close>

definition FacBomAbstract_getID :: "(addr \<Rightarrow> 64 word) \<Rightarrow> addr \<Rightarrow> 64 word" where
  "FacBomAbstract_getID ptr_hash iBomAbstract_ptr = ptr_hash iBomAbstract_ptr"

definition FacBomAbstract_getIDString :: "(addr \<Rightarrow> 64 word) \<Rightarrow> addr \<Rightarrow> string" where
  "FacBomAbstract_getIDString ptr_hash iBomAbstract_ptr =
     (let lID = FacBomAbstract_getID ptr_hash iBomAbstract_ptr;
          oStr = insert_string (decimal (unat lID)) ostringstream
      in text_of oStr)"

section \<open>The vector operator of the batch program\<close>

text \<open>
  The streams of a process by name. The operator is given the stream \<open>os\<close> and returns it; the
  elements go to \<open>std::cout\<close>, each followed by a blank.
\<close>

datatype stream_name = Std_Cout | Other_Stream nat

type_synonym streams = "stream_name \<Rightarrow> ostream"

definition insert_to :: "stream_name \<Rightarrow> string \<Rightarrow> streams \<Rightarrow> streams" where
  "insert_to n s st = st(n := insert_string s (st n))"

definition vector_output ::
  "('t \<Rightarrow> string) \<Rightarrow> stream_name \<Rightarrow> 't list \<Rightarrow> streams \<Rightarrow> stream_name \<times> streams" where
  "vector_output show_elem os v st =
     (os, fold (\<lambda>x st. insert_to Std_Cout '' '' (insert_to Std_Cout (show_elem x) st)) v st)"

section \<open>Lemmas\<close>

lemma padded_0 [simp]: "padded 0 f a s = s"
  by (simp add: padded_def split: adjustment.split)

lemma length_padded: "length (padded w f a s) = max w (length s)"
  by (auto simp: padded_def split: adjustment.split)

lemma insert_string_fields [simp]:
  "fill_char (insert_string s os) = fill_char os" "adjust (insert_string s os) = adjust os"
  "good (insert_string s os) = good os"
  by (simp_all add: insert_string_def)

text \<open>A \<open>toStream\<close> that inserts strings one after the other.\<close>

definition insert_all :: "string list \<Rightarrow> ostream \<Rightarrow> ostream" where
  "insert_all ss os = fold insert_string ss os"

lemma insert_all_unpadded:
  "good os \<Longrightarrow> field_width os = 0 \<Longrightarrow> text_of (insert_all ss os) = text_of os @ concat ss"
proof (induction ss arbitrary: os)
  case Nil
  then show ?case by (simp add: insert_all_def)
next
  case (Cons s ss)
  from Cons.prems Cons.IH [of "insert_string s os"] show ?case
    by (simp add: insert_all_def insert_string_def)
qed

lemma digit_value: "n < 10 \<Longrightarrow> of_char (digit n) = 48 + n"
  by (simp add: digit_def)

text \<open>Reading a decimal number back.\<close>

definition read_decimal :: "string \<Rightarrow> nat" where
  "read_decimal s = foldl (\<lambda>n c. 10 * n + (of_char c - 48)) 0 s"

lemma read_decimal_snoc: "read_decimal (s @ [c]) = 10 * read_decimal s + (of_char c - 48)"
  by (simp add: read_decimal_def)

lemma read_decimal_decimal: "read_decimal (decimal n) = n"
proof (induction n rule: decimal.induct)
  case (1 n)
  show ?case
  proof (cases "n < 10")
    case True
    then show ?thesis by (subst decimal.simps) (simp add: read_decimal_def digit_value)
  next
    case False
    with 1 show ?thesis
      by (subst decimal.simps) (simp add: read_decimal_snoc digit_value)
  qed
qed

lemma decimal_length: "n < 10 ^ k \<Longrightarrow> 0 < k \<Longrightarrow> length (decimal n) \<le> k"
proof (induction n arbitrary: k rule: decimal.induct)
  case (1 n)
  show ?case
  proof (cases "n < 10")
    case True
    with "1.prems" show ?thesis by (subst decimal.simps) simp
  next
    case False
    with "1.prems" have "k \<noteq> Suc 0" by auto
    with "1.prems"(2) obtain j where j: "k = Suc j" "0 < j" by (cases k) auto
    with "1.prems" have "n div 10 < 10 ^ j" by (simp add: div_less_iff_less_mult mult.commute)
    from "1.IH" [OF False this j(2)] j(1) False show ?thesis by (subst decimal.simps) simp
  qed
qed

section \<open>Properties\<close>

text \<open>
  The width that is set on a stream applies to a business object as a whole: on a good
  stream, an object that writes its text in pieces appears as the concatenation of the
  pieces, padded once with the fill character on the side the stream wants; the text before
  is kept, the width is reset and the rest of the format is as before.
\<close>

lemma bom_output_pads_once:
  assumes "good ioOut"
  shows "BomAbstract_output (insert_all pieces) ioOut = ioOut\<lparr>
    text_of := text_of ioOut @
      padded (field_width ioOut) (fill_char ioOut) (adjust ioOut) (concat pieces),
    field_width := 0\<rparr>"
  using assms by (simp add: BomAbstract_output_def insert_all_unpadded insert_string_def
      copyfmt_def set_width_def ostringstream_def)

text \<open>
  A service has no text of its own: inserting one in a stream writes the padding only, so
  nothing at all without a width, and extracting one reads nothing and changes nothing.
\<close>

lemma service_streams_are_empty:
  "ServiceAbstract_output ServiceAbstract_toStream ioOut = (if good ioOut
     then ioOut\<lparr>text_of := text_of ioOut @ replicate (field_width ioOut) (fill_char ioOut),
                field_width := 0\<rparr>
     else ioOut) \<and>
   ServiceAbstract_input ServiceAbstract_fromStream v ioIn = (v, ioIn)"
  by (simp add: ServiceAbstract_output_def ServiceAbstract_toStream_def insert_string_def
      ServiceAbstract_input_def ServiceAbstract_fromStream_def copyfmt_def set_width_def
      ostringstream_def padded_def split: adjustment.split)

text \<open>
  C40. The identifier of an object as a string says neither more nor less than the hash: two
  objects have the same string exactly when their addresses have the same 64-bit hash. It is
  the decimal number of the hash, at most 20 characters long.
\<close>

theorem id_string_faithful:
  "(FacBomAbstract_getIDString h p = FacBomAbstract_getIDString h q \<longleftrightarrow>
      FacBomAbstract_getID h p = FacBomAbstract_getID h q) \<and>
   read_decimal (FacBomAbstract_getIDString h p) = unat (FacBomAbstract_getID h p) \<and>
   length (FacBomAbstract_getIDString h p) \<le> 20"
proof -
  have str: "FacBomAbstract_getIDString h r = decimal (unat (FacBomAbstract_getID h r))" for r
    by (simp add: FacBomAbstract_getIDString_def insert_string_def ostringstream_def)
  have "unat (FacBomAbstract_getID h p) < 10 ^ 20"
    by (rule less_trans [OF unsigned_less]) simp
  then have "length (decimal (unat (FacBomAbstract_getID h p))) \<le> 20"
    by (rule decimal_length) simp
  moreover have "decimal m = decimal n \<longleftrightarrow> m = n" for m n
    using read_decimal_decimal by metis
  ultimately show ?thesis
    unfolding str by (simp add: read_decimal_decimal word_unat_eq_iff)
qed

lemma vector_output_Cons:
  "snd (vector_output show_elem os (x # v) st)
   = snd (vector_output show_elem os v
       (insert_to Std_Cout '' '' (insert_to Std_Cout (show_elem x) st)))"
  by (simp add: vector_output_def)

lemma vector_output_others:
  assumes "n \<noteq> Std_Cout"
  shows "snd (vector_output show_elem os v st) n = st n"
proof (induction v arbitrary: st)
  case Nil
  then show ?case by (simp add: vector_output_def)
next
  case (Cons x v)
  show ?case unfolding vector_output_Cons Cons.IH using assms by (simp add: insert_to_def)
qed

lemma vector_output_cout:
  "good (st Std_Cout) \<Longrightarrow> field_width (st Std_Cout) = 0 \<Longrightarrow>
   text_of (snd (vector_output show_elem os v st) Std_Cout)
     = text_of (st Std_Cout) @ concat (map (\<lambda>x. show_elem x @ '' '') v)"
proof (induction v arbitrary: st)
  case Nil
  then show ?case by (simp add: vector_output_def)
next
  case (Cons x v)
  let ?st = "insert_to Std_Cout '' '' (insert_to Std_Cout (show_elem x) st)"
  have st: "good (?st Std_Cout)" "field_width (?st Std_Cout) = 0"
    "text_of (?st Std_Cout) = text_of (st Std_Cout) @ show_elem x @ '' ''"
    using Cons.prems by (simp_all add: insert_to_def insert_string_def)
  show ?case unfolding vector_output_Cons Cons.IH [of ?st, OF st(1,2)] st(3) by simp
qed

text \<open>
  The vector operator does not write where it is asked to: inserting a vector in a stream
  other than \<open>std::cout\<close> leaves that stream as it was and prints on \<open>std::cout\<close>; the stream it
  returns, on which the next insertion of the expression goes, is the one it was given.
\<close>

lemma vector_output_ignores_stream:
  assumes "os \<noteq> Std_Cout" and "good (st Std_Cout)" and "field_width (st Std_Cout) = 0"
  shows "fst (vector_output show_elem os v st) = os \<and>
    snd (vector_output show_elem os v st) os = st os \<and>
    text_of (snd (vector_output show_elem os v st) Std_Cout)
      = text_of (st Std_Cout) @ concat (map (\<lambda>x. show_elem x @ '' '') v)"
proof (intro conjI)
  show "fst (vector_output show_elem os v st) = os" by (simp add: vector_output_def)
  show "snd (vector_output show_elem os v st) os = st os"
    by (rule vector_output_others [OF assms(1)])
  show "text_of (snd (vector_output show_elem os v st) Std_Cout)
      = text_of (st Std_Cout) @ concat (map (\<lambda>x. show_elem x @ '' '') v)"
    by (rule vector_output_cout [of st, OF assms(2,3)])
qed

end
