(* ===== verification/CRS_TestSuite.thy ===== *)
theory CRS_TestSuite
  imports Complex_Main CRS_Program CRS_Streams
begin

text \<open>
  The test suite of the library (\<open>src/test/simcrs/CRSTestSuite.cpp\<close>), a client of the service
  like the batch program. The state of the process is extended by the list of the checks
  that the unit test framework has recorded. A check that fails is recorded and the test goes
  on; \<open>BOOST_CHECK_NO_THROW\<close> catches the exceptions of the statement it checks, after the
  destructors of the local service and of the log stream have run.
\<close>

section \<open>Process state and parameters\<close>

text \<open>The settings of the report that the framework writes, and the checks it has recorded.\<close>

record unit_test_log =
  stream :: string
  report_format :: string
  threshold_level :: string

record 'w test_process = "'w process" +
  checks :: "(string \<times> bool) list"
  report :: unit_test_log

text \<open>
  The log file of a test, and what StdAir's structures give: the fare of an option (a double is
  a rational number; the rounding in the addition of one half is not modelled), and the text
  of a booking request.
\<close>

record 'w test_api =
  test_log_open :: "string \<Rightarrow> ('w, unit) prog"
  test_log_close :: "string \<Rightarrow> ('w, unit) prog"
  test_log_destroy :: "string \<Rightarrow> 'w \<Rightarrow> 'w"
  getFare :: "fare_option \<Rightarrow> rat"
  describe_request :: "booking_request \<Rightarrow> string"

definition boost_check :: "string \<Rightarrow> bool \<Rightarrow> (('w, 'x) test_process_scheme, unit) prog" where
  "boost_check what b = modS (\<lambda>s. s\<lparr>checks := checks s @ [(what, b)]\<rparr>)"

definition boost_check_no_throw ::
  "string \<Rightarrow> 'a \<Rightarrow> (('w, 'x) test_process_scheme, 'a) prog
   \<Rightarrow> (('w, 'x) test_process_scheme, 'a) prog" where
  "boost_check_no_throw what old m = (\<lambda>s. case m s of
      (Ret x, t) \<Rightarrow> seqM (boost_check what True) (ret x) t
    | (Throw e, t) \<Rightarrow> seqM (boost_check what False) (ret old) t
    | (Halt b, t) \<Rightarrow> (Halt b, t))"

section \<open>The simulation\<close>

definition test_request :: "string \<Rightarrow> string \<Rightarrow> string \<Rightarrow> booking_request" where
  "test_request lPreferredDepartureDate lRequestDate lTripType = BookingRequestStruct [
     (''origin'', ''SIN''), (''destination'', ''BKK''), (''POS'', ''SIN''),
     (''preferredDepartureDate'', lPreferredDepartureDate),
     (''requestDateTime'', lRequestDate @ '' 10:00:00''), (''preferredCabin'', ''Eco''),
     (''partySize'', ''3''), (''channel'', ''IN''), (''tripType'', lTripType),
     (''stayDuration'', ''7''), (''frequentFlyerType'', ''M''),
     (''preferredDepartureTime'', ''10:00:00''), (''WTP'', ''1000.0''),
     (''valueOfTime'', ''100.0''), (''changeFees'', ''true''), (''changeFeeDisutility'', ''50''),
     (''nonRefundable'', ''true''), (''nonRefundableDisutility'', ''50'')]"

record test_files =
  scheduleFile :: string
  onDFile :: string
  frat5File :: string
  ffDisutilityFile :: string
  yieldFile :: string
  fareFile :: string

text \<open>The inventory of the test and the request that goes with it.\<close>

definition prepare_test ::
  "'w apis \<Rightarrow> test_files \<Rightarrow> bool \<Rightarrow> simcrs_service
   \<Rightarrow> (('w, 'x) crs_state_scheme, booking_request) prog" where
  "prepare_test A files isBuiltin simcrsService =
     (if isBuiltin = True
      then seqM (SIMCRS_buildSampleBom A simcrsService)
                (ret (test_request ''2010/02/08'' ''2010/01/21'' ''OW''))
      else seqM (SIMCRS_parseAndLoad A simcrsService (scheduleFile files) (onDFile files)
                   (frat5File files) (ffDisutilityFile files) (yieldFile files)
                   (fareFile files))
                (ret (test_request ''2011/01/31'' ''2011/01/22'' ''RI'')))"

text \<open>The name of the log file, and the messages that go to the log and to the checks.\<close>

definition test_log_file :: "nat \<Rightarrow> string" where
  "test_log_file iTestFlag = ''CRSTestSuite_'' @ decimal iTestFlag @ ''.log''"

definition quoted :: "string \<Rightarrow> string" where
  "quoted t = [CHR 0x27] @ t @ [CHR 0x27]"

definition oMessageKeptTS :: "'w test_api \<Rightarrow> booking_request \<Rightarrow> nat \<Rightarrow> nat \<Rightarrow> string" where
  "oMessageKeptTS T lBookingRequest lNbOfTravelSolutions iExpectedNbOfTravelSolutions =
     ''The number of travel solutions for the booking request '' @
     quoted (describe_request T lBookingRequest) @ '' is actually '' @
     decimal lNbOfTravelSolutions @ ''. That number is expected to be '' @
     decimal iExpectedNbOfTravelSolutions @ ''.''"

definition oMessageKeptFare ::
  "'w apis \<Rightarrow> 'w test_api \<Rightarrow> booking_request \<Rightarrow> travel_solution \<Rightarrow> fare_option \<Rightarrow> nat
   \<Rightarrow> string" where
  "oMessageKeptFare A T lBookingRequest lTravelSolution lFareOption iExpectedPrice =
     ''The price given by the fare quoter for the booking request: '' @
     quoted (describe_request T lBookingRequest) @ '' and travel solution: '' @
     quoted (describe_solution (utilA A) lTravelSolution) @ '' is actually '' @
     show_fare (utilA A) lFareOption @ '' Euros. It is expected to be '' @
     decimal iExpectedPrice @ '' Euros.''"

text \<open>The check of the price and the sale, for the solution and the fare option kept.\<close>

definition sell_and_check ::
  "'w apis \<Rightarrow> 'w test_api \<Rightarrow> nat \<Rightarrow> simcrs_service \<Rightarrow> booking_request \<Rightarrow> travel_solution
   \<Rightarrow> fare_option \<Rightarrow> (('w, 'x) test_process_scheme, bool) prog" where
  "sell_and_check A T iExpectedPrice simcrsService lBookingRequest lTravelSolution lFareOption =
     (let lTravelSolution = lTravelSolution\<lparr>chosenFareOption := lFareOption\<rparr>;
          priceOk = \<lfloor>getFare T lFareOption + 1 / 2\<rfloor> = int iExpectedPrice;
          message = oMessageKeptFare A T lBookingRequest lTravelSolution lFareOption
            iExpectedPrice in
      seqM (on_world (log_debug (utilA A) message))
     (seqM (boost_check ''floor (fare + 0.5) == iExpectedPrice'' priceOk)
     (seqM (boost_check message priceOk)
     (seqM (on_world (log_debug (utilA A)
             (''A booking will now (attempted to) be made on the travel solution '' @
              quoted (describe_solution (utilA A) lTravelSolution) @
              '', for a party size of '' @ show_party (utilA A) 3 @ ''.'')))
           (SIMCRS_sell A simcrsService lTravelSolution 3)))))"

text \<open>
  From the number of travel solutions on: it is checked, and the first solution with its first
  fare option is kept, whatever the check has found.
\<close>

definition check_offers ::
  "'w apis \<Rightarrow> 'w test_api \<Rightarrow> string \<Rightarrow> nat \<Rightarrow> nat \<Rightarrow> simcrs_service \<Rightarrow> booking_request
   \<Rightarrow> travel_solution list \<Rightarrow> (('w, 'x) test_process_scheme, nat) prog" where
  "check_offers A T lLogFilename iExpectedNbOfTravelSolutions iExpectedPrice simcrsService
     lBookingRequest lTravelSolutionList =
     (let lNbOfTravelSolutions = length lTravelSolutionList;
          nbOk = lNbOfTravelSolutions = iExpectedNbOfTravelSolutions;
          message = oMessageKeptTS T lBookingRequest lNbOfTravelSolutions
            iExpectedNbOfTravelSolutions in
      seqM (on_world (log_debug (utilA A) message))
     (seqM (boost_check ''lNbOfTravelSolutions == iExpectedNbOfTravelSolutions'' nbOk)
     (seqM (boost_check message nbOk)
     (bindM (front lTravelSolutionList) (\<lambda>lTravelSolution.
      bindM (front (fareOptionList lTravelSolution)) (\<lambda>lFareOption.
      bindM (sell_and_check A T iExpectedPrice simcrsService lBookingRequest lTravelSolution
               lFareOption) (\<lambda>isSellSuccessful.
      seqM (on_world (test_log_close T lLogFilename))
           (ret (of_bool isSellSuccessful)))))))))"

definition testSimCRSHelper ::
  "'w apis \<Rightarrow> 'w test_api \<Rightarrow> nat \<Rightarrow> test_files \<Rightarrow> bool \<Rightarrow> nat \<Rightarrow> nat
   \<Rightarrow> (('w, 'x) test_process_scheme, nat) prog" where
  "testSimCRSHelper A T iTestFlag files isBuiltin iExpectedNbOfTravelSolutions iExpectedPrice =
     (let lCRSCode = ''1P'';
          lLogFilename = test_log_file iTestFlag in
      finally_world (test_log_destroy T lLogFilename)
     (seqM (on_world (test_log_open T lLogFilename))
     (bindM (SIMCRS_Service_log A \<lparr>logLevel = ''DEBUG'', logStream = lLogFilename\<rparr> lCRSCode)
       (\<lambda>simcrsService.
      with_service A simcrsService
       (bindM (prepare_test A files isBuiltin simcrsService) (\<lambda>lBookingRequest.
        bindM (SIMCRS_calculateSegmentPathList A simcrsService lBookingRequest)
          (\<lambda>lTravelSolutionList.
        bindM (with_local lTravelSolutionList (SIMCRS_fareQuote A simcrsService lBookingRequest))
          (check_offers A T lLogFilename iExpectedNbOfTravelSolutions iExpectedPrice
             simcrsService lBookingRequest))))))))"

section \<open>The test cases\<close>

text \<open>
  The end of both test cases: the answer goes to the standard output and is checked twice.
\<close>

definition check_sale :: "bool \<Rightarrow> (('w, 'x) test_process_scheme, unit) prog" where
  "check_sale isSellSuccessful =
     (let isSellSuccessfulStr = (if isSellSuccessful = True then ''Yes'' else ''No'');
          oMessageSell = ''Was the sell successful? Answer: '' @ isSellSuccessfulStr in
      seqM (print_line oMessageSell)
     (seqM (boost_check ''isSellSuccessful == true'' (isSellSuccessful = True))
           (boost_check oMessageSell (isSellSuccessful = True))))"

definition simcrs_simple_simulation_test ::
  "build_config \<Rightarrow> 'w apis \<Rightarrow> 'w test_api \<Rightarrow> (('w, 'x) test_process_scheme, unit) prog" where
  "simcrs_simple_simulation_test B A T =
     (let files = \<lparr>scheduleFile = STDAIR_SAMPLE_DIR B @ ''/rds01/schedule.csv'',
            onDFile = STDAIR_SAMPLE_DIR B @ ''/ond01.csv'',
            frat5File = STDAIR_SAMPLE_DIR B @ ''/frat5.csv'',
            ffDisutilityFile = STDAIR_SAMPLE_DIR B @ ''/ffDisutility.csv'',
            yieldFile = STDAIR_SAMPLE_DIR B @ ''/rds01/yield.csv'',
            fareFile = STDAIR_SAMPLE_DIR B @ ''/rds01/fare.csv''\<rparr>;
          isBuiltin = False; lExpectedPrice = 400; lExpectedNbOfTravelSolutions = 1 in
      bindM (boost_check_no_throw ''testSimCRSHelper'' False
        (bindM (testSimCRSHelper A T 0 files isBuiltin lExpectedNbOfTravelSolutions lExpectedPrice)
          (\<lambda>n. ret (n \<noteq> 0))))
      check_sale)"

definition simcrs_simple_default_bom_simulation_test ::
  "'w apis \<Rightarrow> 'w test_api \<Rightarrow> (('w, 'x) test_process_scheme, unit) prog" where
  "simcrs_simple_default_bom_simulation_test A T =
     (let files = \<lparr>scheduleFile = '' '', onDFile = '' '', frat5File = '' '',
            ffDisutilityFile = '' '', yieldFile = '' '', fareFile = '' ''\<rparr>;
          isBuiltin = True; lExpectedPrice = 900; lExpectedNbOfTravelSolutions = 1 in
      bindM (boost_check_no_throw ''testSimCRSHelper'' False
        (bindM (testSimCRSHelper A T 1 files isBuiltin lExpectedNbOfTravelSolutions lExpectedPrice)
          (\<lambda>n. ret (n \<noteq> 0))))
      check_sale)"

definition master_test_suite ::
  "build_config \<Rightarrow> 'w apis \<Rightarrow> 'w test_api \<Rightarrow> (('w, 'x) test_process_scheme, unit) prog" where
  "master_test_suite B A T = seqM (simcrs_simple_simulation_test B A T)
     (simcrs_simple_default_bom_simulation_test A T)"

text \<open>
  The global fixture of the framework: the report goes to a file of its own, in XML (the name
  of the format depends on the version of Boost), and its destructor does nothing. The
  fixture is built before the first test case and destroyed after the last one.
\<close>

definition utfReportStream :: string where
  "utfReportStream = ''CRSTestSuite_utfresults.xml''"

definition UnitTestConfig_make :: "nat \<Rightarrow> (('w, 'x) test_process_scheme, unit) prog" where
  "UnitTestConfig_make BOOST_VERSION_MACRO =
     seqM (modS (\<lambda>s. s\<lparr>report := (report s)\<lparr>stream := utfReportStream\<rparr>\<rparr>))
    (seqM (if BOOST_VERSION_MACRO \<ge> 105900
           then modS (\<lambda>s. s\<lparr>report := (report s)\<lparr>report_format := ''OF_XML''\<rparr>\<rparr>)
           else modS (\<lambda>s. s\<lparr>report := (report s)\<lparr>report_format := ''XML''\<rparr>\<rparr>))
          (modS (\<lambda>s. s\<lparr>report := (report s)\<lparr>threshold_level := ''log_test_units''\<rparr>\<rparr>)))"

definition UnitTestConfig_destroy :: "(('w, 'x) test_process_scheme, unit) prog" where
  "UnitTestConfig_destroy = ret ()"

definition test_program ::
  "nat \<Rightarrow> build_config \<Rightarrow> 'w apis \<Rightarrow> 'w test_api \<Rightarrow> (('w, 'x) test_process_scheme, unit) prog" where
  "test_program BOOST_VERSION_MACRO B A T = seqM (UnitTestConfig_make BOOST_VERSION_MACRO)
     (seqM (master_test_suite B A T) UnitTestConfig_destroy)"

section \<open>Lemmas\<close>

text \<open>The settings of the report after the fixture.\<close>

definition report_settings :: "nat \<Rightarrow> unit_test_log" where
  "report_settings v = \<lparr>stream = ''CRSTestSuite_utfresults.xml'',
     report_format = (if v \<ge> 105900 then ''OF_XML'' else ''XML''),
     threshold_level = ''log_test_units''\<rparr>"

lemma UnitTestConfig_run:
  "UnitTestConfig_make v s = (Ret (), s\<lparr>report := report_settings v\<rparr>)"
  by (simp add: UnitTestConfig_make_def utfReportStream_def report_settings_def seqM_cases)

lemma test_program_run:
  "test_program v B A T s = master_test_suite B A T (s\<lparr>report := report_settings v\<rparr>)"
  by (cases "master_test_suite B A T (s\<lparr>report := report_settings v\<rparr>)";
      cases "fst (master_test_suite B A T (s\<lparr>report := report_settings v\<rparr>))")
    (simp_all add: test_program_def UnitTestConfig_run UnitTestConfig_destroy_def seqM_cases)

lemma boost_check_run [simp]:
  "boost_check what b s = (Ret (), s\<lparr>checks := checks s @ [(what, b)]\<rparr>)"
  by (simp add: boost_check_def)

lemma truncate_tests [simp]: "mem.truncate (s\<lparr>checks := l\<rparr>) = mem.truncate s"
  "mem.truncate (s\<lparr>report := p\<rparr>) = mem.truncate s"
  by (simp_all add: mem.defs)

lemma keeps_boost_check [keeps_intros]: "keeps mem.truncate (boost_check what b)"
  by (simp add: keeps_def)

lemma keeps_prepare: "keeps mem.truncate (prepare_test A files b this)"
  unfolding prepare_test_def by (intro keeps_intros keeps_methods) simp_all

lemma keeps_sell_and_check: "keeps mem.truncate (sell_and_check A T p this q t fo)"
  unfolding sell_and_check_def Let_def by (intro keeps_intros keeps_methods) simp_all

lemma keeps_check_offers: "keeps mem.truncate (check_offers A T f n p this q ts)"
  unfolding check_offers_def Let_def by (intro keeps_intros keeps_sell_and_check) simp_all

lemma helper_releases:
  assumes "makes_return A"
  shows "releases (testSimCRSHelper A T flag files b n p)"
  unfolding testSimCRSHelper_def Let_def seqM_def
  by (intro releases_finally_world releases_bindM releases_keeps service_block_releases assms
      keeps_intros keeps_prepare keeps_methods keeps_check_offers) simp_all

lemma releases_no_throw:
  assumes "releases m"
  shows "releases (boost_check_no_throw what old m)"
  unfolding releases_def
proof (intro allI impI)
  fix s r t
  assume ok: "mem_ok s" and run: "boost_check_no_throw what old m s = (r, t)" and "\<not> is_halt r"
  then obtain q u where "m s = (q, u)" "\<not> is_halt q" "mem.truncate t = mem.truncate u"
    by (auto simp: boost_check_no_throw_def seqM_cases split: prod.splits outcome.splits)
  then show "mem_ok t \<and> (\<forall>x. held_refs x t = held_refs x s)"
    using assms ok same_memory unfolding releases_def by metis
qed

lemma test_cases_release:
  assumes "makes_return A"
  shows "releases (simcrs_simple_simulation_test B A T)"
    and "releases (simcrs_simple_default_bom_simulation_test A T)"
  unfolding simcrs_simple_simulation_test_def simcrs_simple_default_bom_simulation_test_def
    check_sale_def Let_def
  by (intro releases_bindM releases_no_throw helper_releases assms releases_keeps keeps_intros;
      simp)+

text \<open>
  What is seen of a test: the standard output and the checks. The components and the memory
  do not touch them.
\<close>

definition seen :: "('w, 'x) test_process_scheme \<Rightarrow> string \<times> (string \<times> bool) list" where
  "seen s = (cout s, checks s)"

lemma seen_world [simp]: "seen (s\<lparr>world := w\<rparr>) = seen s"
  by (simp add: seen_def)

lemma more_seen:
  fixes s t :: "('w, 'x) test_process_scheme"
  shows "crs_state.more t = crs_state.more s \<Longrightarrow> seen t = seen s"
  by (cases t; cases s) (simp add: seen_def)

lemma destroy_seen: "SIMCRS_Service_destroy A this s = (r, t) \<Longrightarrow> seen t = seen s"
  by (auto simp: SIMCRS_Service_destroy_def finalise_def asserted_context_def bindM_cases
      load_def update_context_def seen_def reset_eq split: option.splits)

lemma prepare_seen: "keeps seen (prepare_test A files b this)"
  unfolding prepare_test_def by (intro keeps_intros keeps_methods) simp_all

text \<open>A helper that returns has recorded four checks: two for the number, two for the price.\<close>

definition verdicts :: "(string \<times> bool) list \<Rightarrow> bool list" where
  "verdicts cs = map snd cs"

lemma sell_and_check_Ret:
  assumes "sell_and_check A T p this q t fo s = (Ret sold, u)"
  shows "\<exists>cs. seen u = (cout s, checks s @ cs) \<and>
    verdicts cs = replicate 2 (\<lfloor>getFare T fo + 1 / 2\<rfloor> = int p)"
proof -
  obtain v where v: "SIMCRS_sell A this (t\<lparr>chosenFareOption := fo\<rparr>) 3 v = (Ret sold, u)"
    "\<exists>cs. seen v = (cout s, checks s @ cs) \<and>
       verdicts cs = replicate 2 (\<lfloor>getFare T fo + 1 / 2\<rfloor> = int p)"
    using assms by (auto simp: sell_and_check_def Let_def seqM_eq_Ret_iff seen_def verdicts_def
        numeral_2_eq_2)
  have "keeps seen (SIMCRS_sell A this (t\<lparr>chosenFareOption := fo\<rparr>) 3)"
    by (rule keeps_methods) simp
  from keepsD [OF this v(1)] v(2) show ?thesis by simp
qed

lemma check_offers_Ret:
  assumes "check_offers A T f nb p this q ts s = (Ret r, u)"
  shows "\<exists>cs fo ok. seen u = (cout s, checks s @ cs) \<and> verdicts cs =
    replicate 2 (length ts = nb) @ replicate 2 (\<lfloor>getFare T fo + 1 / 2\<rfloor> = int p) \<and> r = of_bool ok"
proof -
  obtain t us where ts: "ts = t # us"
    using assms by (cases ts) (auto simp: check_offers_def Let_def seqM_eq_Ret_iff)
  obtain fo fos where fo: "fareOptionList t = fo # fos"
    using assms by (cases "fareOptionList t")
      (auto simp: check_offers_def Let_def seqM_eq_Ret_iff ts)
  let ?ok = "length ts = nb"
  obtain w sold v where sell: "sell_and_check A T p this q t fo (s\<lparr>world := w,
      checks := checks s @ [(''lNbOfTravelSolutions == iExpectedNbOfTravelSolutions'', ?ok),
        (oMessageKeptTS T q (length ts) nb, ?ok)]\<rparr>) = (Ret sold, v)"
    "seen u = seen v" "r = of_bool sold"
    using assms by (auto simp: check_offers_def Let_def seqM_eq_Ret_iff bindM_eq_Ret_iff ts fo)
  from sell_and_check_Ret [OF sell(1)] sell(2,3) show ?thesis
    by (fastforce simp: verdicts_def numeral_2_eq_2)
qed

lemma helper_Ret:
  assumes ok: "mem_ok s" and run: "testSimCRSHelper A T flag files b nb p s = (Ret r, u)"
  shows "\<exists>cs x y sold. seen u = (cout s, checks s @ cs) \<and>
    verdicts cs = replicate 2 x @ replicate 2 y \<and> r = of_bool sold"
proof -
  let ?f = "test_log_file flag"
  obtain u' where inner: "seqM (on_world (test_log_open T ?f))
     (bindM (SIMCRS_Service_log A \<lparr>logLevel = ''DEBUG'', logStream = ?f\<rparr> ''1P'') (\<lambda>this.
      with_service A this (bindM (prepare_test A files b this) (\<lambda>q.
        bindM (SIMCRS_calculateSegmentPathList A this q) (\<lambda>ts.
        bindM (with_local ts (SIMCRS_fareQuote A this q)) (check_offers A T ?f nb p this q)))))) s
      = (Ret r, u')" and u': "seen u = seen u'"
    using run by (auto simp: testSimCRSHelper_def Let_def)
  obtain w this v q v1 ts v2 us v3 v4 where
    v: "SIMCRS_Service_log A \<lparr>logLevel = ''DEBUG'', logStream = ?f\<rparr> ''1P'' (s\<lparr>world := w\<rparr>)
          = (Ret this, v)"
    and v1: "prepare_test A files b this v = (Ret q, v1)"
    and v2: "SIMCRS_calculateSegmentPathList A this q v1 = (Ret ts, v2)"
    and v3: "with_local ts (SIMCRS_fareQuote A this q) v2 = (Ret us, v3)"
    and v4: "check_offers A T ?f nb p this q us v3 = (Ret r, v4)"
    and u: "SIMCRS_Service_destroy A this v4 = (Ret (), u')"
    using inner unfolding seqM_eq_Ret_iff bindM_eq_Ret_iff with_service_Ret_iff on_world_Ret_iff
    by blast
  have "crs_state.more v = crs_state.more (s\<lparr>world := w\<rparr>)"
    by (rule log_constructor_more [OF _ v]) (use ok in simp)
  from more_seen [OF this] have "seen v = seen s" by simp
  moreover have "seen v3 = seen v"
    using keepsD [OF prepare_seen v1] keepsD [OF keeps_methods(4) [of seen] v2]
      keepsD [OF keeps_methods(5) [of seen] v3] by simp
  moreover have "seen u = seen v4" using destroy_seen [OF u] u' by simp
  ultimately show ?thesis
    using check_offers_Ret [OF v4] by (auto simp: seen_def)
qed

section \<open>Outcomes of a test case\<close>

definition answer_text :: "bool \<Rightarrow> string" where
  "answer_text sold = ''Was the sell successful? Answer: '' @ (if sold then ''Yes'' else ''No'')"

lemma check_sale_run:
  "check_sale sold s = (Ret (), s\<lparr>cout := cout s @ line (answer_text sold),
     checks := checks s @ [(''isSellSuccessful == true'', sold), (answer_text sold, sold)]\<rparr>)"
  by (simp add: check_sale_def Let_def answer_text_def line_def seqM_cases)

lemma test_case_outcome:
  assumes ok: "mem_ok s" and run: "bindM (boost_check_no_throw w False
      (bindM (testSimCRSHelper A T flag files b nb p) (\<lambda>n. ret (n \<noteq> 0)))) check_sale s = (Ret (), t)"
    and pass: "list_all snd (checks t)"
  shows "length (checks t) = length (checks s) + 7 \<and> cout t = cout s @ line (answer_text True) \<and>
    list_all snd (checks s)"
proof -
  obtain r u where u: "testSimCRSHelper A T flag files b nb p s = (r, u)" by fastforce
  show ?thesis
  proof (cases r)
    case (Ret n)
    obtain cs x y sold where cs: "seen u = (cout s, checks s @ cs)"
      "verdicts cs = replicate 2 x @ replicate 2 y" "n = of_bool sold"
      using helper_Ret [OF ok u [unfolded Ret]] by blast
    have "length cs = 4"
      using arg_cong [OF cs(2), of length] by (simp add: verdicts_def)
    then show ?thesis
      using run u Ret cs pass by (auto simp: check_sale_run boost_check_no_throw_def bindM_cases seqM_cases seen_def)
  next
    case (Throw e)
    show ?thesis
      using run u Throw pass by (auto simp: check_sale_run boost_check_no_throw_def bindM_cases seqM_cases)
  qed (use run u in \<open>simp add: boost_check_no_throw_def bindM_cases\<close>)
qed

section \<open>A sample run\<close>

definition sample_tests :: "echo test_api" where
  "sample_tests = \<lparr>test_log_open = (\<lambda>_. note_call ''log.open'' 0 ()),
     test_log_close = (\<lambda>_. note_call ''log.close'' 0 ()),
     test_log_destroy = (\<lambda>_ (l, n). (l @ [(''log.gone'', 0)], n)),
     getFare = (\<lambda>fo. if fareOptionRest fo = [(''price'', ''900'')] then 900 else 400),
     describe_request = (\<lambda>_. [])\<rparr>"

text \<open>An environment in which the schedule finds one solution, at the price expected.\<close>

definition sample_solution :: "booking_request \<Rightarrow> travel_solution" where
  "sample_solution q = one_solution\<lparr>fareOptionList := [\<lparr>classPath = [''Y''], fareOptionRest =
     [(''price'', if q = test_request ''2010/02/08'' ''2010/01/21'' ''OW'' then ''900''
                  else ''400'')]\<rparr>]\<rparr>"

definition sample_world :: "echo apis" where
  "sample_world = (echo_apis (\<lambda>_. True) [])\<lparr>airtspA := (airtspA (echo_apis (\<lambda>_. True) []))\<lparr>
     airtsp_buildSegmentPathList := \<lambda>x q. note_inout ''airtsp.paths'' x (\<lambda>v. v @ [sample_solution q])\<rparr>\<rparr>"

definition sample_test_process :: "echo test_process" where
  "sample_test_process = \<lparr>supervisorInstance = None, ctxFactoryInstance = None,
     supervisors = Map.empty, serviceFactories = Map.empty, bomFactories = Map.empty,
     contexts = Map.empty, boms = Map.empty, nextAddr = 0, world = ([], 0), cout = [],
     cerr = [], checks = [], report = \<lparr>stream = ''cout'', report_format = ''OF_CLF'',
       threshold_level = ''log_all_errors''\<rparr>\<rparr>"

lemma floor_half [simp]: "\<lfloor>1 / 2 :: rat\<rfloor> = 0"
  by (simp add: floor_eq_iff)

lemma test_request_eq [simp]:
  "test_request d r t = test_request d' r' t' \<longleftrightarrow> d = d' \<and> r = r' \<and> t = t'"
  by (simp add: test_request_def)

lemmas suite_defs = master_test_suite_def simcrs_simple_simulation_test_def
  simcrs_simple_default_bom_simulation_test_def testSimCRSHelper_def boost_check_no_throw_def
  with_service_def prepare_test_def check_offers_def sell_and_check_def check_sale_run
  SIMCRS_Service_log_def init_defs creation_defs setter_defs load_def
  SIMCRS_buildComplementaryLinks_def booking_defs SIMCRS_Service_destroy_def finalise_def
  block_defs

lemma sample_builtin_test:
  "\<exists>t. simcrs_simple_default_bom_simulation_test sample_world sample_tests sample_test_process
     = (Ret (), t) \<and> list_all snd (checks t)"
  by (simp add: suite_defs sample_tests_def sample_world_def sample_test_process_def
      sample_solution_def one_solution_def DistributionManager_sell_def echo_apis_def)

text \<open>An environment in which both test cases fail with an exception.\<close>

definition broken_world :: "echo apis" where
  "broken_world = (echo_apis (\<lambda>_. True) [])\<lparr>stdairA := (stdairA (echo_apis (\<lambda>_. True) []))\<lparr>
     stdair_getPersistentBomRoot := \<lambda>x. raise (ExternalException ''no tree'')\<rparr>\<rparr>"

lemma broken_suite:
  "\<exists>t. test_program v sample_build broken_world sample_tests sample_test_process = (Ret (), t) \<and>
     map snd (checks t) = replicate 6 False"
  by (simp add: test_program_run suite_defs sample_tests_def broken_world_def sample_test_process_def
      echo_apis_def numeral_eq_Suc)

section \<open>The services of the suite\<close>

text \<open>
  When the suite returns, each external service is referred to by exactly as many contexts as
  at the start, as long as the constructors of the other components return.
\<close>

lemma suite_releases_services:
  assumes "mem_ok s" and "makes_return A" and "master_test_suite B A T s = (Ret (), t)"
  shows "mem_ok t \<and> (\<forall>x. held_refs x t = held_refs x s)"
proof -
  have "releases (master_test_suite B A T)"
    unfolding master_test_suite_def seqM_def
    by (intro releases_bindM test_cases_release assms(2))
  then show ?thesis using assms(1,3) unfolding releases_def by fastforce
qed

lemma mem_ok_test_process: "mem_ok sample_test_process"
  by (simp add: sample_test_process_def mem_ok_def service_layer_ok_def singletons_ok_def
      fresh_ok_def)

lemma makes_return_broken: "makes_return broken_world"
  using makes_return_echo [of "\<lambda>_. True" "[]"] by (simp add: makes_return_def broken_world_def)

section \<open>Properties\<close>

text \<open>
  C36. A test case that passes has tested: when it returns and every check recorded so far is
  a success, it has itself recorded exactly seven (the number of solutions twice, the price
  twice, the absence of an exception, the sale twice) and has printed that the sale was
  successful. It can not pass because an exception or a missing offer cut it short.
\<close>

theorem passing_test_has_sold:
  assumes "mem_ok s"
    and "simcrs_simple_simulation_test B A T s = (Ret (), t) \<or>
         simcrs_simple_default_bom_simulation_test A T s = (Ret (), t)"
    and "list_all snd (checks t)"
  shows "length (checks t) = length (checks s) + 7 \<and>
    cout t = cout s @ ''Was the sell successful? Answer: Yes'' @ [CHR 0x0A]"
  using assms(2) test_case_outcome [OF assms(1) _ assms(3)]
  by (auto simp: simcrs_simple_simulation_test_def simcrs_simple_default_bom_simulation_test_def
      Let_def line_def answer_text_def)

theorem passing_test_has_sold_witness:
  "\<exists>t. simcrs_simple_default_bom_simulation_test sample_world sample_tests sample_test_process
     = (Ret (), t) \<and> length (checks t) = 7"
  using passing_test_has_sold [OF mem_ok_test_process disjI2] sample_builtin_test
  by (force simp: sample_test_process_def)

text \<open>
  C37. A failed check on the number of solutions does not protect the test: without any
  solution, or when the first one has no fare option, and if the debug log returns, both checks
  on the number are recorded (as failures when it is not the expected one) and the test then
  calls \<open>front()\<close> on an empty list, where the batch program would have given up with -1.
\<close>

theorem no_offer_undefined:
  assumes "ts = [] \<or> fareOptionList (hd ts) = []"
    and "\<And>m w. \<exists>w'. log_debug (utilA A) m w = (Ret (), w')"
  shows "\<exists>t. check_offers A T f nb p this q ts s = (Halt (Undefined Empty_front), t) \<and>
    map snd (checks t) = map snd (checks s) @ [length ts = nb, length ts = nb]"
proof -
  obtain w' where "log_debug (utilA A) (oMessageKeptTS T q (length ts) nb) (world s) = (Ret (), w')"
    using assms(2) by blast
  then show ?thesis
    using assms(1) by (cases ts) (auto simp: check_offers_def Let_def seqM_cases on_world_def)
qed

theorem no_offer_undefined_witness:
  "\<exists>t. check_offers (echo_apis (\<lambda>_. True) []) sample_tests ''t.log'' 1 400 sample_service
     (test_request ''d'' ''r'' ''OW'') [] sample_test_process
     = (Halt (Undefined Empty_front), t) \<and> map snd (checks t) = [False, False]"
  using no_offer_undefined [of "[]" "echo_apis (\<lambda>_. True) []" sample_tests "''t.log''" 1 400
      sample_service "test_request ''d'' ''r'' ''OW''" sample_test_process]
  by (simp add: echo_apis_def sample_test_process_def)

end
