(* ===== verification/CRS_Suite.thy ===== *)
theory CRS_Suite
  imports CRS_TestSuite
begin

text \<open>
  What the test program does: \<open>spec_tests\<close> is a program on the external components, the
  standard output and the recorded checks alone, with no service object, no context and no
  factory in it. \<open>test_program\<close> is shown to be indistinguishable from it, whatever the
  external components do, from every well-formed memory.
\<close>

section \<open>The specified test program\<close>

text \<open>The output and the checks, beside the external components.\<close>

type_synonym 'w tested = "(string \<times> (string \<times> bool) list) \<times> 'w"

definition tested :: "('w, 'x) test_process_scheme \<Rightarrow> 'w tested" where
  "tested s = (seen s, world s)"

definition spec_check :: "string \<Rightarrow> bool \<Rightarrow> ('w tested, unit) prog" where
  "spec_check what b = modS (\<lambda>((out, cs), w). ((out, cs @ [(what, b)]), w))"

definition spec_prepare ::
  "'w apis \<Rightarrow> test_files \<Rightarrow> bool \<Rightarrow> crew \<Rightarrow> ('w tested, booking_request) prog" where
  "spec_prepare A files isBuiltin h = (if isBuiltin
     then seqM (beside_ref (run_calls A (plan_of sample_plan h)))
               (ret (test_request ''2010/02/08'' ''2010/01/21'' ''OW''))
     else seqM (beside_ref (run_calls A (plan_of (parse_plan (scheduleFile files)
                 (onDFile files) (frat5File files) (ffDisutilityFile files) (yieldFile files)
                 (fareFile files)) h)))
               (ret (test_request ''2011/01/31'' ''2011/01/22'' ''RI'')))"

text \<open>The first offer: two checks of the number, two of the price, and the sale.\<close>

definition spec_offer ::
  "'w apis \<Rightarrow> 'w test_api \<Rightarrow> nat \<Rightarrow> crew \<Rightarrow> booking_request \<Rightarrow> travel_solution \<Rightarrow> fare_option
   \<Rightarrow> ('w tested, bool) prog" where
  "spec_offer A T price h q t fo =
     (let t = t\<lparr>chosenFareOption := fo\<rparr>; ok = \<lfloor>getFare T fo + 1 / 2\<rfloor> = int price;
          message = oMessageKeptFare A T q t fo price in
      seqM (beside_ref (log_debug (utilA A) message))
     (seqM (spec_check ''floor (fare + 0.5) == iExpectedPrice'' ok)
     (seqM (spec_check message ok)
     (seqM (beside_ref (log_debug (utilA A)
             (''A booking will now (attempted to) be made on the travel solution '' @
              quoted (describe_solution (utilA A) t) @ '', for a party size of '' @
              show_party (utilA A) 3 @ ''.'')))
           (beside_ref (spec_sell A h t 3))))))"

definition spec_offers ::
  "'w apis \<Rightarrow> 'w test_api \<Rightarrow> string \<Rightarrow> nat \<Rightarrow> nat \<Rightarrow> crew \<Rightarrow> booking_request
   \<Rightarrow> travel_solution list \<Rightarrow> ('w tested, nat) prog" where
  "spec_offers A T file nb price h q ts =
     (let ok = length ts = nb; message = oMessageKeptTS T q (length ts) nb in
      seqM (beside_ref (log_debug (utilA A) message))
     (seqM (spec_check ''lNbOfTravelSolutions == iExpectedNbOfTravelSolutions'' ok)
     (seqM (spec_check message ok)
     (bindM (front ts) (\<lambda>t.
      bindM (front (fareOptionList t)) (\<lambda>fo.
      bindM (spec_offer A T price h q t fo) (\<lambda>sold.
      seqM (beside_ref (test_log_close T file)) (ret (of_bool sold)))))))))"

definition spec_session ::
  "'w apis \<Rightarrow> 'w test_api \<Rightarrow> string \<Rightarrow> test_files \<Rightarrow> bool \<Rightarrow> nat \<Rightarrow> nat \<Rightarrow> crew
   \<Rightarrow> ('w tested, nat) prog" where
  "spec_session A T file files isBuiltin nb price h =
     bindM (spec_prepare A files isBuiltin h) (\<lambda>q.
     bindM (beside_ref (spec_paths A h q)) (\<lambda>ts.
     bindM (beside_ref (spec_quote A h q ts)) (spec_offers A T file nb price h q)))"

text \<open>A crew that is hired for a session, whatever the end of it.\<close>

definition spec_block ::
  "'w apis \<Rightarrow> log_params \<Rightarrow> (crew \<Rightarrow> ('w tested, 'a) prog) \<Rightarrow> ('w tested, 'a) prog" where
  "spec_block A lp session = bindM (beside_ref (unaccounted (spec_construct A lp ''1P'')))
     (\<lambda>h. finally_do (apsnd (give_back A (crew_pointers h))) (session h))"

definition spec_simulation ::
  "'w apis \<Rightarrow> 'w test_api \<Rightarrow> nat \<Rightarrow> test_files \<Rightarrow> bool \<Rightarrow> nat \<Rightarrow> nat \<Rightarrow> ('w tested, nat) prog" where
  "spec_simulation A T flag files isBuiltin nb price =
     (let file = test_log_file flag in
      finally_do (apsnd (test_log_destroy T file))
     (seqM (beside_ref (test_log_open T file))
           (spec_block A \<lparr>logLevel = ''DEBUG'', logStream = file\<rparr>
             (spec_session A T file files isBuiltin nb price))))"

text \<open>A test case: an exception of the simulation is a failed check, and no sale.\<close>

definition spec_case ::
  "'w apis \<Rightarrow> 'w test_api \<Rightarrow> nat \<Rightarrow> test_files \<Rightarrow> bool \<Rightarrow> nat \<Rightarrow> nat \<Rightarrow> ('w tested, unit) prog" where
  "spec_case A T flag files isBuiltin nb price = (\<lambda>v.
     let (r, (out, cs), w) = spec_simulation A T flag files isBuiltin nb price v;
         finish = (\<lambda>calm sold. (Ret (), (out @ line (answer_text sold),
           cs @ [(''testSimCRSHelper'', calm), (''isSellSuccessful == true'', sold),
             (answer_text sold, sold)]), w)) in
     case r of Ret n \<Rightarrow> finish True (n \<noteq> 0) | Throw e \<Rightarrow> finish False False
       | Halt b \<Rightarrow> (Halt b, (out, cs), w))"

definition sample_files :: "build_config \<Rightarrow> test_files" where
  "sample_files B = \<lparr>scheduleFile = STDAIR_SAMPLE_DIR B @ ''/rds01/schedule.csv'',
     onDFile = STDAIR_SAMPLE_DIR B @ ''/ond01.csv'',
     frat5File = STDAIR_SAMPLE_DIR B @ ''/frat5.csv'',
     ffDisutilityFile = STDAIR_SAMPLE_DIR B @ ''/ffDisutility.csv'',
     yieldFile = STDAIR_SAMPLE_DIR B @ ''/rds01/yield.csv'',
     fareFile = STDAIR_SAMPLE_DIR B @ ''/rds01/fare.csv''\<rparr>"

definition no_files :: test_files where
  "no_files = \<lparr>scheduleFile = '' '', onDFile = '' '', frat5File = '' '',
     ffDisutilityFile = '' '', yieldFile = '' '', fareFile = '' ''\<rparr>"

definition spec_tests :: "build_config \<Rightarrow> 'w apis \<Rightarrow> 'w test_api \<Rightarrow> ('w tested, unit) prog" where
  "spec_tests B A T = seqM (spec_case A T 0 (sample_files B) False 1 400)
     (spec_case A T 1 no_files True 1 900)"

section \<open>Tests that show what their specification shows\<close>

text \<open>
  \<open>shows_as this c M m\<close>: called while the context of \<open>this\<close> is alive and equal to \<open>c\<close>, \<open>M\<close> ends
  as \<open>m\<close> does, with the same output, the same checks and the same effect on the external
  components, and does not touch the memory.
\<close>

definition shows_as :: "simcrs_service \<Rightarrow> service_context
  \<Rightarrow> (('w, 'x) test_process_scheme, 'a) prog \<Rightarrow> ('w tested, 'a) prog \<Rightarrow> bool" where
  "shows_as this c M m \<longleftrightarrow> (\<forall>s a r t. simcrsServiceContext this = Some a \<longrightarrow>
     contexts s a = Some c \<longrightarrow> M s = (r, t) \<longrightarrow>
     m (tested s) = (r, tested t) \<and> mem.truncate t = mem.truncate s)"

named_theorems shows_intros "rules that compare a test with its specification"

lemma tested_world [simp]: "tested (s\<lparr>world := w\<rparr>) = (seen s, w)"
  by (simp add: tested_def)

lemma shows_performs:
  assumes "performs this c M m"
  shows "shows_as this c M (beside_ref m)"
  unfolding shows_as_def
proof (intro allI impI)
  fix s a r t
  assume "simcrsServiceContext this = Some a" "contexts s a = Some c" "M s = (r, t)"
  with performsD [OF assms] have "on_world m s = (r, t)" by metis
  then show "beside_ref m (tested s) = (r, tested t) \<and> mem.truncate t = mem.truncate s"
    by (auto simp: on_world_def beside_ref_def tested_def seen_def split: prod.splits)
qed

lemma shows_on_world [shows_intros]: "shows_as this c (on_world m) (beside_ref m)"
  by (rule shows_performs [OF performs_on_world])

lemma shows_ret [shows_intros]: "shows_as this c (ret x) (ret x)"
  by (simp add: shows_as_def)

lemma shows_front [shows_intros]: "shows_as this c (front xs) (front xs)"
  by (cases xs) (simp_all add: shows_as_def)

lemma shows_check [shows_intros]: "shows_as this c (boost_check what b) (spec_check what b)"
  by (simp add: shows_as_def spec_check_def tested_def seen_def)

lemma shows_bindM [shows_intros]:
  assumes "shows_as this c M m" "\<And>x. shows_as this c (F x) (f x)"
  shows "shows_as this c (bindM M F) (bindM m f)"
  unfolding shows_as_def
proof (intro allI impI)
  fix s a r t
  assume ptr: "simcrsServiceContext this = Some a" and c: "contexts s a = Some c"
    and run: "bindM M F s = (r, t)"
  obtain q u where M: "M s = (q, u)" by fastforce
  have u: "m (tested s) = (q, tested u)" "mem.truncate u = mem.truncate s"
    using assms(1) ptr c M unfolding shows_as_def by blast+
  show "bindM m f (tested s) = (r, tested t) \<and> mem.truncate t = mem.truncate s"
  proof (cases q)
    case (Ret x)
    with run M have "F x u = (r, t)" by (simp add: bindM_cases)
    moreover have "contexts u a = Some c" using same_memory(2) [OF u(2)] c by simp
    ultimately have "f x (tested u) = (r, tested t) \<and> mem.truncate t = mem.truncate u"
      using assms(2) ptr unfolding shows_as_def by blast
    with u Ret show ?thesis by (simp add: bindM_cases)
  qed (use run M u in \<open>auto simp: bindM_cases\<close>)
qed

lemma shows_seqM [shows_intros]:
  "shows_as this c M m \<Longrightarrow> shows_as this c N n \<Longrightarrow> shows_as this c (seqM M N) (seqM m n)"
  unfolding seqM_def by (rule shows_bindM)

text \<open>The steps of a test with a service.\<close>

lemma prepare_shows:
  assumes "crew_of c = Some h"
  shows "shows_as this c (prepare_test A files b this) (spec_prepare A files b h)"
proof -
  note perform = sample_performs [OF crew_of_handlers(1) [OF assms]]
    parse_performs [OF crew_of_handlers(1) [OF assms]]
  show ?thesis
    unfolding prepare_test_def spec_prepare_def plan_of_def
    by (cases b) (simp_all del: run_simps, (intro shows_intros shows_performs perform)+)
qed

lemma offers_show:
  assumes "crew_of c = Some h"
  shows "shows_as this c (check_offers A T f nb p this q ts) (spec_offers A T f nb p h q ts)"
  unfolding check_offers_def spec_offers_def sell_and_check_def spec_offer_def Let_def
  by (intro shows_intros shows_performs sales_perform(1) assms)

lemma session_shows:
  assumes "crew_of c = Some h"
  shows "shows_as this c
    (bindM (prepare_test A files b this) (\<lambda>q.
     bindM (SIMCRS_calculateSegmentPathList A this q) (\<lambda>ts.
     bindM (with_local ts (SIMCRS_fareQuote A this q)) (check_offers A T f nb p this q))))
    (spec_session A T f files b nb p h)"
  unfolding spec_session_def
  by (intro shows_intros prepare_shows offers_show shows_performs timed_methods_perform(1,2) assms)

section \<open>From construction to destruction\<close>

definition reflects ::
  "(('w, 'x) test_process_scheme, 'a) prog \<Rightarrow> ('w tested, 'a) prog \<Rightarrow> bool" where
  "reflects M m \<longleftrightarrow> (\<forall>s r t. mem_ok s \<longrightarrow> M s = (r, t) \<longrightarrow>
     m (tested s) = (r, tested t) \<and> (is_halt r \<or> mem_ok t))"

lemma reflectsD:
  "reflects M m \<Longrightarrow> mem_ok s \<Longrightarrow> M s = (r, t) \<Longrightarrow>
   m (tested s) = (r, tested t) \<and> (is_halt r \<or> mem_ok t)"
  unfolding reflects_def by blast

lemma reflects_on_world: "reflects (on_world m) (beside_ref m)"
  by (auto simp: reflects_def on_world_def beside_ref_def tested_def seen_def split: prod.splits)

lemma reflects_seqM:
  assumes "reflects M m" "reflects N n"
  shows "reflects (seqM M N) (seqM m n)"
  unfolding reflects_def
proof (intro allI impI)
  fix s r t
  assume ok: "mem_ok s" and run: "seqM M N s = (r, t)"
  obtain q u where M: "M s = (q, u)" by fastforce
  note u = reflectsD [OF assms(1) ok M]
  show "seqM m n (tested s) = (r, tested t) \<and> (is_halt r \<or> mem_ok t)"
  proof (cases q)
    case (Ret x)
    with run M have N: "N u = (r, t)" by (simp add: seqM_cases)
    have "mem_ok u" using u Ret by simp
    from reflectsD [OF assms(2) this N] u Ret show ?thesis by (simp add: seqM_cases)
  qed (use run M u in \<open>auto simp: seqM_cases\<close>)
qed

lemma reflects_finally:
  fixes M :: "(('w, 'x) test_process_scheme, 'a) prog"
  assumes "reflects M m"
  shows "reflects (finally_world f M) (finally_do (apsnd f) m)"
  unfolding reflects_def
proof (intro allI impI)
  fix s :: "('w, 'x) test_process_scheme" and r t
  assume ok: "mem_ok s" and run: "finally_world f M s = (r, t)"
  obtain q u where M: "M s = (q, u)" by fastforce
  note u = reflectsD [OF assms ok M]
  have t: "r = q" "t = (if is_halt q then u else u\<lparr>world := f (world u)\<rparr>)"
    using run finally_do_run [of M s q u "\<lambda>s. s\<lparr>world := f (world s)\<rparr>"] M
    by (auto simp: finally_world_def)
  have "m (tested s) = (q, tested u)" using u by simp
  from finally_do_run [of m "tested s" q "tested u" "apsnd f", OF this] t u
  show "finally_do (apsnd f) m (tested s) = (r, tested t) \<and> (is_halt r \<or> mem_ok t)"
    by (auto simp: tested_def)
qed

lemma service_reflects:
  fixes body :: "simcrs_service \<Rightarrow> (('w, 'x) test_process_scheme, 'a) prog"
  assumes body: "\<And>this c h. crew_of c = Some h \<Longrightarrow> shows_as this c (body this) (session h)"
  shows "reflects (bindM (SIMCRS_Service_log A lp ''1P'') (\<lambda>this. with_service A this (body this)))
    (spec_block A lp session)"
  unfolding reflects_def
proof (intro allI impI)
  fix s :: "('w, 'x) test_process_scheme" and r t
  assume ok: "mem_ok s" and run: "bindM (SIMCRS_Service_log A lp ''1P'')
    (\<lambda>this. with_service A this (body this)) s = (r, t)"
  obtain q u where ctor: "SIMCRS_Service_log A lp ''1P'' s = (q, u)" by fastforce
  obtain p ls v where spec: "spec_construct A lp ''1P'' ([], world s) = (p, ls, v)"
    using prod.exhaust by metis
  note ends = employs_ends [OF employs_log [OF ok] ctor spec]
  have mem: "mem_ok u" using owning_constructor_any [OF ok disjI1 [OF ctor]] by blast
  have seen: "seen u = seen s" by (rule more_seen) (use ends in blast)
  have new: "beside_ref (unaccounted (spec_construct A lp ''1P'')) (tested s) = (p, seen s, v)"
    by (simp add: beside_ref_def unaccounted_def tested_def spec)
  show "spec_block A lp session (tested s) = (r, tested t) \<and> (is_halt r \<or> mem_ok t)"
  proof (cases p)
    case (Ret h)
    with ends obtain this a d where u: "q = Ret this" "simcrsServiceContext this = Some a"
      "contexts u a = Some d" "crew_of d = Some h" "world u = v"
      by (auto simp: crew_at_iff)
    obtain q' u' where u': "body this u = (q', u')" by fastforce
    have same: "session h (tested u) = (q', tested u')" "mem.truncate u' = mem.truncate u"
      using body [OF u(4)] u(2,3) u' unfolding shows_as_def by blast+
    have d: "contexts u' a = Some d" "mem_ok u'"
      using same_memory(1,2) [OF same(2)] u(3) mem by simp_all
    have "tested (destroyed A a d u') = apsnd (give_back A (crew_pointers h)) (tested u')"
      by (simp add: tested_def seen_def destroyed_def drop_slots_given reset_crew [OF u(4)])
    moreover have "with_service A this (body this) u
        = (q', if is_halt q' then u' else destroyed A a d u')"
      using u' destroy_run [OF u(2) d(1), of A]
      by (cases q') (simp_all add: with_service_def seqM_cases)
    ultimately show ?thesis
      using run ctor u(1,5) new Ret seen d same(1)
        finally_do_run [of "session h" "tested u" q' "tested u'"
          "apsnd (give_back A (crew_pointers h))", OF same(1)]
      by (auto simp: spec_block_def bindM_cases tested_def mem_ok_destroyed)
  qed (use ends ctor run new mem seen in \<open>auto simp: spec_block_def bindM_cases tested_def\<close>)
qed

lemma simulation_reflects:
  "reflects (testSimCRSHelper A T flag files b nb p) (spec_simulation A T flag files b nb p)"
  unfolding testSimCRSHelper_def spec_simulation_def Let_def
  by (intro reflects_finally reflects_seqM reflects_on_world service_reflects session_shows)

lemma mem_ok_shown:
  fixes s :: "('w, 'x) test_process_scheme"
  shows "mem_ok (s\<lparr>cout := l, checks := cs\<rparr>) = mem_ok s"
  by (rule same_memory(1)) (simp add: mem.defs)

lemma case_reflects:
  "reflects (bindM (boost_check_no_throw ''testSimCRSHelper'' False
     (bindM (testSimCRSHelper A T flag files b nb p) (\<lambda>n. ret (n \<noteq> 0)))) check_sale)
   (spec_case A T flag files b nb p)"
  unfolding reflects_def
proof (intro allI impI)
  fix s r t
  assume ok: "mem_ok s" and run: "bindM (boost_check_no_throw ''testSimCRSHelper'' False
     (bindM (testSimCRSHelper A T flag files b nb p) (\<lambda>n. ret (n \<noteq> 0)))) check_sale s = (r, t)"
  obtain q u where u: "testSimCRSHelper A T flag files b nb p s = (q, u)" by fastforce
  note v = reflectsD [OF simulation_reflects ok u]
  show "spec_case A T flag files b nb p (tested s) = (r, tested t) \<and> (is_halt r \<or> mem_ok t)"
    using run u v
    by (cases q) (auto simp: spec_case_def boost_check_no_throw_def bindM_cases seqM_cases
        check_sale_run mem_ok_shown tested_def seen_def)
qed

lemma suite_reflects: "reflects (master_test_suite B A T) (spec_tests B A T)"
  unfolding master_test_suite_def spec_tests_def simcrs_simple_simulation_test_def
    simcrs_simple_default_bom_simulation_test_def sample_files_def no_files_def Let_def
  by (intro reflects_seqM case_reflects)

lemma test_program_runs_spec:
  assumes "mem_ok s" and "test_program v B A T s = (r, t)"
  shows "spec_tests B A T (tested s) = (r, tested t)"
proof -
  have "mem_ok (s\<lparr>report := report_settings v\<rparr>)"
    using same_memory(1) [OF truncate_tests(2)] assms(1) by blast
  from reflectsD [OF suite_reflects this] assms(2) show ?thesis
    by (auto simp: test_program_run tested_def seen_def)
qed

section \<open>Properties\<close>

text \<open>
  C5. The test program refines a program without memory: from every well-formed state of the
  factories it ends with the same outcome as \<open>spec_tests\<close>, with the same effect on the other
  components, the same text on the standard output and the same verdicts in the same order.
  No object of SimCRS that the first test case leaves behind, not even after a constructor
  that has thrown, can change what the second one shows.
\<close>

theorem test_program_refines_spec:
  assumes "mem_ok s" and "test_program v B A T s = (r, t)"
  shows "spec_tests B A T ((cout s, checks s), world s) = (r, (cout t, checks t), world t)"
  using test_program_runs_spec [OF assms] by (simp add: tested_def seen_def)

theorem test_program_refines_spec_witness:
  "\<exists>w out cs. spec_tests sample_build broken_world sample_tests (([], []), [], 0)
     = (Ret (), (out, cs), w) \<and> map snd cs = replicate 6 False"
  using test_program_refines_spec [OF mem_ok_test_process, of 106700] broken_suite [of 106700]
  by (force simp: sample_test_process_def)

end
