(* ===== verification/CRS_Custody.thy ===== *)
theory CRS_Custody
  imports CRS_Usage CRS_Suite
begin

text \<open>
  The account of the shared pointers of the test suite. Unlike the batch program, the suite
  goes on after an exception, so the ledger is compared with the memory: it is square when it
  shows, beside what others hold, the pointers that are in the contexts of SimCRS.
\<close>

section \<open>Programs that keep the ledger square\<close>

definition square :: "('w \<Rightarrow> ledger) \<Rightarrow> (svc \<Rightarrow> nat) \<Rightarrow> ('w, 'x) crs_state_scheme \<Rightarrow> bool" where
  "square book c s \<longleftrightarrow> mem_ok s \<and> book (world s) = Some (\<lambda>x. c x + held_refs x s)"

definition squares :: "('w \<Rightarrow> ledger) \<Rightarrow> (('w, 'x) crs_state_scheme, 'a) prog \<Rightarrow> bool" where
  "squares book m \<longleftrightarrow> (\<forall>c s r t. square book c s \<longrightarrow> m s = (r, t) \<longrightarrow> \<not> is_halt r \<longrightarrow>
     square book c t)"

named_theorems squares_intros "programs that keep the ledger square"

lemma squaresD:
  "squares book m \<Longrightarrow> square book c s \<Longrightarrow> m s = (r, t) \<Longrightarrow> \<not> is_halt r \<Longrightarrow> square book c t"
  unfolding squares_def by blast

lemma square_same:
  assumes "mem.truncate t = mem.truncate s" "book (world t) = book (world s)"
  shows "square book c t \<longleftrightarrow> square book c s"
  using same_memory [OF assms(1)] assms(2) by (simp add: square_def)

lemma squares_same:
  assumes "keeps mem.truncate m" "keeps (\<lambda>s. book (world s)) m"
  shows "squares book m"
  unfolding squares_def using square_same keepsD [OF assms(1)] keepsD [OF assms(2)] by metis

lemma squares_ret [squares_intros]: "squares book (ret x)"
  by (rule squares_same) (intro keeps_intros)+

lemma squares_on_world [squares_intros]:
  assumes "keeps book m"
  shows "squares book (on_world m)"
proof (rule squares_same)
  show "keeps (\<lambda>s. book (world s)) (on_world m)"
    using keepsD [OF assms] by (simp add: keeps_def on_world_def split: prod.split)
qed (intro keeps_intros, simp)

lemma squares_bindM [squares_intros]:
  assumes "squares book m" "\<And>x. squares book (f x)"
  shows "squares book (bindM m f)"
  unfolding squares_def
proof (intro allI impI)
  fix c s r t
  assume s: "square book c s" and run: "bindM m f s = (r, t)" and nohalt: "\<not> is_halt r"
  obtain q u where m: "m s = (q, u)" by fastforce
  note u = squaresD [OF assms(1) s m]
  show "square book c t"
  proof (cases q)
    case (Ret x)
    with run m have "f x u = (r, t)" by (simp add: bindM_cases)
    from squaresD [OF assms(2) _ this nohalt] u Ret show ?thesis by simp
  qed (use run m u nohalt in \<open>auto simp: bindM_cases\<close>)
qed

lemma squares_finally [squares_intros]:
  fixes m :: "(('w, 'x) crs_state_scheme, 'a) prog"
  assumes "\<And>w. book (f w) = book w" "squares book m"
  shows "squares book (finally_world f m)"
  unfolding squares_def
proof (intro allI impI)
  fix c and s :: "('w, 'x) crs_state_scheme" and r t
  assume s: "square book c s" and run: "finally_world f m s = (r, t)" and nohalt: "\<not> is_halt r"
  obtain q u where m: "m s = (q, u)" by fastforce
  have "finally_world f m s = (r, t) \<Longrightarrow> q = r \<and> t = u\<lparr>world := f (world u)\<rparr>"
    using nohalt m by (cases q) (auto simp: finally_world_def finally_do_def)
  with run squaresD [OF assms(2) s m] nohalt assms(1) show "square book c t"
    by (simp add: square_def)
qed

section \<open>What a test does to the ledger\<close>

definition discreet_test :: "('w \<Rightarrow> ledger) \<Rightarrow> 'w test_api \<Rightarrow> bool" where
  "discreet_test book T \<longleftrightarrow> (\<forall>f. keeps book (test_log_open T f)) \<and>
     (\<forall>f. keeps book (test_log_close T f)) \<and> (\<forall>f w. book (test_log_destroy T f w) = book w)"

text \<open>
  A test with a service leaves the ledger alone, and it does the same with the watched
  components, as long as the services of its crew are alive.
\<close>

lemma alike_beside [alike_intros]:
  assumes "alike book X m n"
  shows "alike (beside book) X (beside_ref m) (beside_ref n)"
proof -
  have "keeps book n" and same: "\<And>s. \<forall>x \<in> X. alive x (book s) \<Longrightarrow> m s = n s"
    using assms by (auto simp: alike_def)
  from keeps_beside_ref [OF this(1)] have "keeps (beside book) (beside_ref n)"
    by (simp add: keeps_def beside_def)
  then show ?thesis using same by (simp add: alike_def beside_ref_def beside_def split_paired_all)
qed

lemma alike_check: "alike (beside book) X (spec_check what b) (spec_check what b)"
  by (rule alike_same) (auto simp: keeps_def spec_check_def beside_def)

lemma session_alike:
  fixes h :: crew
  assumes A: "discreet book A" and T: "discreet_test book T"
  shows "alike (beside book) (set (crew_pointers h))
    (spec_session (watched book A) T f files b nb p h) (spec_session A T f files b nb p h)"
proof -
  have close: "keeps book (test_log_close T f)" using T by (simp add: discreet_test_def)
  have messages: "oMessageKeptFare (watched book A) = oMessageKeptFare A"
    by (simp add: fun_eq_iff oMessageKeptFare_def)
  note requests = spec_requests_alike [OF A subset_refl]
  have "alike (beside book) (set (crew_pointers h)) (spec_prepare (watched book A) files b h)
      (spec_prepare A files b h)"
    unfolding spec_prepare_def
    by (intro alike_intros alike_plan [OF A] plans_call_crew)
  moreover have "alike (beside book) (set (crew_pointers h)) (spec_offers (watched book A) T f nb p h q ts)
      (spec_offers A T f nb p h q ts)" for q ts
    unfolding spec_offers_def spec_offer_def Let_def messages watched_parts
    by (intro alike_intros alike_check requests alike_same discreetD [OF A] close front_discreet)
  ultimately show ?thesis
    unfolding spec_session_def by (intro alike_intros requests)
qed

text \<open>What a constructor leaves in the pool is all that it adds to the references.\<close>

lemma held_refs_left:
  assumes "mem_ok s" "may_add_context s t"
  shows "held_refs x t = held_refs x s + count (mset (left_by s t)) x"
  using assms(2)
proof (rule may_addE)
  assume "contexts t = contexts s" "context_pool t = context_pool s"
  then show ?thesis by (simp add: held_refs_def left_by_def pool_slots_def)
next
  fix a c
  assume a: "contexts s a = None" "contexts t = (contexts s)(a \<mapsto> c)"
    "context_pool t = context_pool s @ [Some a]"
  from held_refs_new [OF assms(1) a(1,2)] context_refs_slots [of x c] show ?thesis
    by (simp add: left_by_def a(2,3) pool_slots_def)
qed

context bookkeeping
begin

text \<open>
  A local service keeps the ledger square: its destructor gives back what its constructor has
  taken, and a constructor that throws leaves in the context what it does not give back.
\<close>

lemma service_squares:
  fixes body :: "simcrs_service \<Rightarrow> (('w, 'x) test_process_scheme, 'a) prog"
  assumes body: "\<And>this c h. crew_of c = Some h \<Longrightarrow> shows_as this c (body this) (session h)"
    and calm: "\<And>h. keeps (beside book) (session h)"
    and memory: "\<And>this. keeps mem.truncate (body this)"
  shows "squares book (bindM (SIMCRS_Service_log A lp crs)
    (\<lambda>this. with_service A this (body this)))"
  unfolding squares_def
proof (intro allI impI)
  fix c and s :: "('w, 'x) test_process_scheme" and r t
  assume sq: "square book c s" and nohalt: "\<not> is_halt r"
    and run: "bindM (SIMCRS_Service_log A lp crs) (\<lambda>this. with_service A this (body this)) s = (r, t)"
  let ?c = "\<lambda>x. c x + held_refs x s"
  have ok: "mem_ok s" and bk: "book (world s) = owing ?c {#}"
    using sq by (simp_all add: square_def)
  obtain q u where ctor: "SIMCRS_Service_log A lp crs s = (q, u)" by fastforce
  obtain p ls v where spec: "spec_construct A lp crs ([], world s) = (p, ls, v)"
    using prod.exhaust by metis
  note ends = employs_ends [OF employs_log [OF ok] ctor spec]
  note settled = constructor_settled [OF spec_log spec bk]
  show "square book c t"
  proof (cases p)
    case (Ret h)
    with ends obtain this a d where u: "q = Ret this" "simcrsServiceContext this = Some a"
      "contexts u a = Some d" "crew_of d = Some h" "world u = v"
      by (auto simp: crew_at_iff)
    obtain q' u' where u': "body this u = (q', u')" by fastforce
    have shown: "session h (tested u) = (q', tested u')" "mem.truncate u' = mem.truncate u"
      using body [OF u(4)] u(2,3) u' unfolding shows_as_def by blast+
    have same: "book (world u') = book (world u)"
      using keepsD [OF calm shown(1)] by (simp add: beside_def tested_def)
    have d: "contexts u' a = Some d" using same_memory(2) [OF shown(2)] u(3) by simp
    have "with_service A this (body this) u = (r, t)" using run ctor u(1) by (simp add: bindM_cases)
    moreover from this have "t = destroyed A a d u'"
      using u' nohalt destroy_run [OF u(2) d, of A]
      by (cases q') (auto simp: with_service_def seqM_cases)
    moreover have "book (world u') = owing ?c (mset (crew_pointers h) + {#})"
      using settled Ret same u(5) by (simp add: settled_def)
    note give_back_all [OF this]
    ultimately show ?thesis
      using service_block [OF ok ctor [unfolded u(1)] memory _ nohalt]
      by (simp add: square_def drop_slots_given reset_crew [OF u(4)])
  next
    case (Throw e)
    with ends have q: "q = Throw e" "ls = left_by s u" "world u = v" by auto
    have any: "mem_ok u" "may_add_context s u" using owning_constructor_any [OF ok disjI1 [OF ctor]] by blast+
    have "book v = owing ?c (mset ls)" using settled Throw by (simp add: settled_def)
    then show ?thesis
      using run ctor q any(1) held_refs_left [OF ok any(2)]
      by (simp add: bindM_cases square_def owing_def fun_eq_iff)
  qed (use ends ctor run nohalt in \<open>auto simp: bindM_cases\<close>)
qed

lemma session_calm:
  "discreet_test book T \<Longrightarrow> keeps (beside book) (spec_session A T f files b nb p h)"
  using session_alike [OF other_law] by (simp add: alike_def)

lemma helper_squares:
  assumes T: "discreet_test book T"
  shows "squares book (testSimCRSHelper A T flag files b nb p)"
  unfolding testSimCRSHelper_def Let_def
proof (rule squares_finally)
  show "book (test_log_destroy T f w) = book w" for f w using T by (simp add: discreet_test_def)
  have "keeps book (test_log_open T f)" for f using T by (simp add: discreet_test_def)
  then show "squares book (seqM (on_world (test_log_open T (test_log_file flag)))
      (bindM (SIMCRS_Service_log A \<lparr>logLevel = ''DEBUG'', logStream = test_log_file flag\<rparr> ''1P'')
      (\<lambda>this. with_service A this (bindM (prepare_test A files b this) (\<lambda>q.
        bindM (SIMCRS_calculateSegmentPathList A this q) (\<lambda>ts.
        bindM (with_local ts (SIMCRS_fareQuote A this q))
          (check_offers A T (test_log_file flag) nb p this q)))))))"
    unfolding seqM_def
    by (intro squares_bindM squares_on_world
        service_squares [where session = "spec_session A T (test_log_file flag) files b nb p"]
        session_shows session_calm T keeps_intros keeps_prepare keeps_methods
        keeps_check_offers) simp_all
qed

lemma squares_no_throw:
  fixes m :: "(('w, 'x) test_process_scheme, 'a) prog"
  assumes "squares book m"
  shows "squares book (boost_check_no_throw what old m)"
  unfolding squares_def
proof (intro allI impI)
  fix c and s :: "('w, 'x) test_process_scheme" and r t
  assume s: "square book c s" and run: "boost_check_no_throw what old m s = (r, t)"
    and "\<not> is_halt r"
  then obtain q u where "m s = (q, u)" "\<not> is_halt q" "mem.truncate t = mem.truncate u"
    "world t = world u"
    by (auto simp: boost_check_no_throw_def seqM_cases split: prod.splits outcome.splits)
  then show "square book c t" using squaresD [OF assms s] square_same by metis
qed

lemma check_sale_squares: "squares book (check_sale sold)"
  by (rule squares_same) (simp_all add: keeps_def check_sale_run)

lemma suite_squares:
  assumes T: "discreet_test book T"
  shows "squares book (master_test_suite B A T)"
  unfolding master_test_suite_def simcrs_simple_simulation_test_def
    simcrs_simple_default_bom_simulation_test_def Let_def seqM_def
  by (intro squares_bindM squares_no_throw helper_squares squares_ret check_sale_squares T)

text \<open>
  With the watched components a session is the same, and leaves a ledger that is not spoilt:
  so is the next one.
\<close>

lemma block_watched:
  assumes w: "book w = Some c"
    and session: "\<And>h. alike (beside book) (set (crew_pointers h)) (session' h) (session h)"
  shows "spec_block (watched book A) lp session' (l, w) = spec_block A lp session (l, w)"
    and "spec_block A lp session (l, w) = (r, l', v) \<Longrightarrow> \<not> is_halt r \<Longrightarrow> book v \<noteq> None"
proof -
  obtain p ls u where spec: "spec_construct A lp ''1P'' ([], w) = (p, ls, u)"
    using prod.exhaust by metis
  have bk: "book w = owing c {#}" using w by simp
  note settled = constructor_settled [OF spec_log spec bk]
  have new: "beside_ref (unaccounted (spec_construct A lp ''1P'')) (l, w) = (p, l, u)"
    by (simp add: beside_ref_def unaccounted_def spec)
  have watched: "beside_ref (unaccounted (spec_construct (watched book A) lp ''1P'')) (l, w) = (p, l, u)"
    using constructors_watched(1) [of w lp "''1P''" "[]"] spec w
    by (simp add: beside_ref_def unaccounted_def)
  have crew: "book u = owing c (mset (crew_pointers h) + {#})" if "p = Ret h" for h
    using settled that by (simp add: settled_def)
  have "session' h (l, u) = session h (l, u)" if h: "p = Ret h" for h
  proof -
    have "\<forall>x \<in> set (crew_pointers h). alive x (beside book (l, u))"
      using crew [OF h] by (simp add: alive_def owing_def beside_def)
    with session [of h] show ?thesis unfolding alike_def by blast
  qed
  then show "spec_block (watched book A) lp session' (l, w) = spec_block A lp session (l, w)"
    by (cases p) (simp_all add: spec_block_def bindM_cases new watched finally_do_def)
  assume run: "spec_block A lp session (l, w) = (r, l', v)" and nohalt: "\<not> is_halt r"
  show "book v \<noteq> None"
  proof (cases p)
    case (Ret h)
    obtain q m x where q: "session h (l, u) = (q, m, x)" using prod.exhaust by metis
    have "keeps (beside book) (session h)" using session by (simp add: alike_def)
    from keepsD [OF this q] have "book x = owing c (mset (crew_pointers h) + {#})"
      using crew [OF Ret] by (simp add: beside_def)
    note give_back_all [OF this]
    moreover have "v = give_back A (crew_pointers h) x"
      using run Ret new q nohalt by (cases q) (auto simp: spec_block_def bindM_cases finally_do_def)
    ultimately show ?thesis by simp
  next
    case (Throw e)
    then show ?thesis
      using run new settled by (auto simp: spec_block_def bindM_cases settled_def owing_def)
  qed (use run new nohalt in \<open>auto simp: spec_block_def bindM_cases\<close>)
qed

lemma simulation_watched:
  assumes T: "discreet_test book T" and w: "book w \<noteq> None"
  shows "spec_simulation (watched book A) T flag files b nb p (l, w)
      = spec_simulation A T flag files b nb p (l, w)"
    and "spec_simulation A T flag files b nb p (l, w) = (r, l', v) \<Longrightarrow> \<not> is_halt r \<Longrightarrow> book v \<noteq> None"
proof -
  let ?f = "test_log_file flag"
  let ?lp = "\<lparr>logLevel = ''DEBUG'', logStream = ?f\<rparr>"
  let ?block = "\<lambda>A. spec_block A ?lp (spec_session A T ?f files b nb p)"
  have sim: "spec_simulation B T flag files b nb p = finally_do (apsnd (test_log_destroy T ?f))
      (seqM (beside_ref (test_log_open T ?f)) (?block B))" for B
    by (simp add: spec_simulation_def Let_def)
  have logs: "keeps book (test_log_open T ?f)" "book (test_log_destroy T ?f x) = book x" for x
    using T by (simp_all add: discreet_test_def)
  obtain q u where q: "test_log_open T ?f w = (q, u)" by fastforce
  obtain c where c: "book u = Some c" using keepsD [OF logs(1) q] w by auto
  note block = block_watched [where session = "spec_session A T ?f files b nb p" and l = l and
      session' = "spec_session (watched book A) T ?f files b nb p" and lp = ?lp,
      OF c session_alike [OF other_law T]]
  show "spec_simulation (watched book A) T flag files b nb p (l, w)
      = spec_simulation A T flag files b nb p (l, w)"
    unfolding sim using q block(1)
    by (cases q) (simp_all add: seqM_cases beside_ref_def finally_do_def)
  assume run: "spec_simulation A T flag files b nb p (l, w) = (r, l', v)" and nohalt: "\<not> is_halt r"
  show "book v \<noteq> None"
  proof (cases q)
    case (Ret x)
    obtain r' m y where y: "?block A (l, u) = (r', m, y)" using prod.exhaust by metis
    have "r' = r" "v = test_log_destroy T ?f y"
      using run q Ret y nohalt unfolding sim
      by (cases r'; auto simp: seqM_cases beside_ref_def finally_do_def)+
    with block(2) [OF y] nohalt logs(2) show ?thesis by simp
  next
    case (Throw e)
    with run q c logs(2) show ?thesis
      unfolding sim by (auto simp: seqM_cases beside_ref_def finally_do_def)
  qed (use run q nohalt in \<open>auto simp: sim seqM_cases beside_ref_def finally_do_def\<close>)
qed

lemma case_watched:
  assumes T: "discreet_test book T" and w: "book w \<noteq> None"
  shows "spec_case (watched book A) T flag files b nb p (l, w) = spec_case A T flag files b nb p (l, w)"
    and "spec_case A T flag files b nb p (l, w) = (Ret (), l', v) \<Longrightarrow> book v \<noteq> None"
proof -
  show "spec_case (watched book A) T flag files b nb p (l, w) = spec_case A T flag files b nb p (l, w)"
    by (simp add: spec_case_def simulation_watched(1) [OF T w])
  obtain r out cs u where u: "spec_simulation A T flag files b nb p (l, w) = (r, (out, cs), u)"
    using prod.exhaust by metis
  assume "spec_case A T flag files b nb p (l, w) = (Ret (), l', v)"
  then show "book v \<noteq> None"
    using simulation_watched(2) [OF T w u] u by (cases r) (auto simp: spec_case_def)
qed

lemma tests_watched:
  assumes T: "discreet_test book T" and w: "book w \<noteq> None"
  shows "spec_tests B (watched book A) T (l, w) = spec_tests B A T (l, w)"
  unfolding spec_tests_def seqM_def
  by (rule bind_same) (auto simp: case_watched(1) [OF T] w dest: case_watched(2) [OF T w])

end

section \<open>The sample suite with a ledger\<close>

definition tests_with_ledger :: "'w test_api \<Rightarrow> ('w \<times> ledger) test_api" where
  "tests_with_ledger T = \<lparr>test_log_open = (\<lambda>f. aside (test_log_open T f)),
     test_log_close = (\<lambda>f. aside (test_log_close T f)),
     test_log_destroy = (\<lambda>f (w, L). (test_log_destroy T f w, L)),
     getFare = getFare T, describe_request = describe_request T\<rparr>"

lemma tests_discreet: "discreet_test snd (tests_with_ledger T)"
  by (auto simp: discreet_test_def tests_with_ledger_def)

definition ledger_tests :: "(echo \<times> ledger) test_process" where
  "ledger_tests = \<lparr>supervisorInstance = None, ctxFactoryInstance = None,
     supervisors = Map.empty, serviceFactories = Map.empty, bomFactories = Map.empty,
     contexts = Map.empty, boms = Map.empty, nextAddr = 0, world = (([], 0), Some (\<lambda>_. 0)),
     cout = [], cerr = [], checks = [], report = \<lparr>stream = ''cout'', report_format = ''OF_CLF'',
       threshold_level = ''log_all_errors''\<rparr>\<rparr>"

lemma ledger_tests_start:
  "mem_ok ledger_tests" "snd (world ledger_tests) = Some (\<lambda>x. 0 + held_refs x ledger_tests)"
  by (simp_all add: ledger_tests_def mem_ok_def service_layer_ok_def singletons_ok_def
      fresh_ok_def held_refs_def)

lemma broken_suite_ledger:
  "\<exists>t. test_program 106700 sample_build (with_ledger broken_world)
     (tests_with_ledger sample_tests) ledger_tests = (Ret (), t) \<and>
     map snd (checks t) = [False, False, False, False, False, False]"
  by (simp add: test_program_run suite_defs sample_tests_def broken_world_def ledger_tests_def
      echo_apis_def drop_all_def reset_order_def with_ledger_def tests_with_ledger_def entering_def aside_def
      aside_ref_def credit_def debit_def)

section \<open>Properties\<close>

text \<open>
  C9. The test program accounts for every shared pointer, also when the simulation throws: an
  exception ends the test case and not the suite, the destructor of the service runs on its
  way, and when the program returns the ledger shows exactly the pointers that the contexts
  hold. These are those of the start, unless the constructor of another component has thrown.
\<close>

theorem suite_pointers_accounted:
  assumes "mem_ok s" and "snd (world s) = Some (\<lambda>x. c x + held_refs x s)"
    and "test_program v B (with_ledger A) (tests_with_ledger T) s = (Ret (), t)"
  shows "snd (world t) = Some (\<lambda>x. c x + held_refs x t) \<and>
    (makes_return A \<longrightarrow> (\<forall>x. held_refs x t = held_refs x s) \<and> snd (world t) = snd (world s))"
proof -
  let ?s = "s\<lparr>report := report_settings v\<rparr>"
  have refs: "held_refs x ?s = held_refs x s" for x by (simp add: held_refs_def)
  have ok: "mem_ok ?s"
    using same_memory(1) [OF truncate_tests(2)] assms(1) by blast
  have run: "master_test_suite B (with_ledger A) (tests_with_ledger T) ?s = (Ret (), t)"
    using assms(3) by (simp add: test_program_run)
  have "square snd c ?s" using ok assms(2) by (simp add: square_def refs)
  from squaresD [OF ledger.suite_squares [OF tests_discreet] this run]
  have "square snd c t" by simp
  moreover have "makes_return A \<Longrightarrow> \<forall>x. held_refs x t = held_refs x s"
    using suite_releases_services [OF ok makes_return_ledger run] refs by simp
  ultimately show ?thesis using assms(2) by (simp add: square_def)
qed

theorem suite_pointers_accounted_witness:
  "\<exists>t. test_program 106700 sample_build (with_ledger broken_world)
     (tests_with_ledger sample_tests) ledger_tests = (Ret (), t) \<and> snd (world t) = snd (world ledger_tests)"
  using suite_pointers_accounted [OF ledger_tests_start] broken_suite_ledger makes_return_broken
  by blast

text \<open>
  C11. The test program uses no dead service: with watched components it ends with the same
  outcome, the same effect on the other components, the same output and the same verdicts,
  also in the test case that follows an exception, whatever the other components do.
\<close>

theorem tests_use_live_services:
  assumes "mem_ok s" and "snd (world s) = Some c"
    and "test_program v B (with_ledger A) (tests_with_ledger T) s = (r, t)"
    and "test_program v B (watched snd (with_ledger A)) (tests_with_ledger T) s = (q, u)"
  shows "q = r \<and> world u = world t \<and> cout u = cout t \<and> checks u = checks t"
proof -
  have "spec_tests B (with_ledger A) (tests_with_ledger T) (tested s) = (r, tested t)"
    "spec_tests B (watched snd (with_ledger A)) (tests_with_ledger T) (tested s) = (q, tested u)"
    using test_program_runs_spec [OF assms(1)] assms(3,4) by blast+
  with ledger.tests_watched [OF tests_discreet, of "world s" B A T "seen s"] assms(2)
  show ?thesis by (simp add: tested_def seen_def)
qed

theorem tests_use_live_services_witness:
  "fst (test_program 106700 sample_build (watched snd (with_ledger broken_world))
     (tests_with_ledger sample_tests) ledger_tests) = Ret ()"
proof -
  obtain t where t: "test_program 106700 sample_build (with_ledger broken_world)
      (tests_with_ledger sample_tests) ledger_tests = (Ret (), t)"
    using broken_suite_ledger by blast
  obtain q u where u: "test_program 106700 sample_build (watched snd (with_ledger broken_world))
      (tests_with_ledger sample_tests) ledger_tests = (q, u)"
    by fastforce
  have "snd (world ledger_tests) = Some (\<lambda>_. 0)" by (simp add: ledger_tests_def)
  from tests_use_live_services [OF ledger_tests_start(1) this t u] u show ?thesis by simp
qed

end
