(* ===== verification/Spec2Isabelle.thy ===== *)
theory Spec2Isabelle
  imports CRS_Usage CRS_Sales CRS_Offers CRS_Custody
begin

text \<open>
  SimCRS, a simulated distribution system (CRS) of airline tickets, in Isabelle/HOL.

  The program is a C++ library and a batch program (\<open>src/simcrs/\<close>). The library offers one
  class, \<open>SIMCRS_Service\<close>, whose objects hold a pointer to a context; the context holds shared
  pointers to the services that do the work: StdAir (data model), AirTSP (schedule), AirInv
  (inventory) and SimFQT (fares). Contexts are created by a factory that owns them, and a
  supervisor owns the factories. The methods of the service check the pointer, take a handler
  from the context and forward the request; sales, cancellations and availability go through
  the commands of \<open>DistributionManager\<close>. The batch program reads its options, constructs one
  service, loads an inventory, books the first solution it finds, and destroys the service.

  \<^bold>\<open>What models what.\<close>

  \<^item> \<open>CRS_Prelude\<close>: how a run ends (\<open>outcome\<close>: it returns, throws, or stops on a failed
    assertion or an undefined step), programs as state transformers with sequencing and the
    end of a block (\<open>finally_do\<close>), frame facts (\<open>keeps\<close>), absence of faults (\<open>settles\<close>), the
    contract of loops that keep the latest answer (locale \<open>latest_answer\<close>), runs of a step
    relation, and the contract of two step relations that simulate each other (locale
    \<open>bisimulation\<close>).
  \<^item> \<open>CRS_Context\<close>: \<open>service/SIMCRS_ServiceContext\<close>. The record \<open>service_context\<close> has the
    attributes of the class; getters that dereference assert first. \<open>reset\<close> and the destructor
    give the shared pointers up one by one.
  \<^item> \<open>CRS_Factories\<close>: \<open>factory/\<close>. The record \<open>mem\<close> holds the two singletons and the live
    objects of each kind by address; pools are lists of pointers. Deleting or reading a dead
    object stops the run. The locale \<open>object_store\<close> is the contract of a destructor towards the
    clean-up loop; it is interpreted for contexts, business objects and both factories.
  \<^item> \<open>CRS_Memory\<close>: the invariant \<open>mem_ok\<close> (pools own the live objects, singletons are unique,
    fresh addresses are unused) and what each factory operation does from it.
  \<^item> \<open>CRS_Services\<close>: the interfaces of the external components, records of operations on an
    abstract state \<open>'w\<close>; every theorem holds for all of them unless it says otherwise. Among
    them is \<open>boost::shared_ptr\<close> (\<open>shared_api\<close>): what a copy and a release do to the object.
  \<^item> \<open>CRS_Distribution\<close>: \<open>command/DistributionManager.cpp\<close>, and the specification of a sale as a
    script of requests that ends well or on a fault.
  \<^item> \<open>CRS_Service\<close>: constructors, initialisation steps and destructor of
    \<open>service/SIMCRS_Service.cpp\<close>, on the record \<open>crs_state\<close> (memory and external state), and
    the service as a local variable (\<open>with_service\<close>).
  \<^item> \<open>CRS_Handlers\<close>: the common end of the constructors as a program on one context and the
    external state, without memory.
  \<^item> \<open>CRS_Lifetime\<close>: what constructors and destructor establish, in contexts, references
    (\<open>held_refs\<close> counts the shared pointers in live contexts) and faults.
  \<^item> \<open>CRS_Operations\<close>: the public methods that forward to one component; the locales
    \<open>framed_client\<close>, \<open>context_client\<close> (methods with a guard) and \<open>safe_client\<close> state what they
    have in common.
  \<^item> \<open>CRS_Loading\<close>: \<open>parseAndLoad\<close>, \<open>buildSampleBom\<close>, \<open>clonePersistentBom\<close>, each refined from a
    plan, the list of the external calls to make.
  \<^item> \<open>CRS_Methods\<close>: the twenty public methods as one (\<open>invoke\<close>), on which the locales are
    interpreted, with the default arguments of \<open>SIMCRS_Service.hpp\<close>.
  \<^item> \<open>CRS_Refinement\<close>: the specification of the public methods on the external components
    alone (\<open>spec_call\<close>), the locale \<open>specified_client\<close>, and the declared return types.
  \<^item> \<open>CRS_Lifecycle\<close>: the process as a step relation over its live services, with the
    invariant of every reachable state.
  \<^item> \<open>CRS_Traces\<close>: histories of the process: counts of contexts and references, the way to a
    clean end.
  \<^item> \<open>CRS_Process\<close>: the state machine \<open>spec_step\<close> over the handlers of the live services and
    the pointers left behind, without memory; the locale \<open>bisimulation\<close> is interpreted on the
    process and this machine.
  \<^item> \<open>CRS_Ledger\<close>: a ledger of the shared pointers that SimCRS has taken and not given back,
    beside any environment (\<open>with_ledger\<close>); the locale \<open>bookkeeping\<close> states the laws of
    \<open>boost::shared_ptr\<close> and \<open>boost::make_shared\<close> towards it.
  \<^item> \<open>CRS_Sales\<close>: what a sale guarantees on top of its script.
  \<^item> \<open>CRS_Streams\<close>: the stream operators of \<open>bom/BomAbstract.hpp\<close> and
    \<open>service/ServiceAbstract.hpp\<close>, the identifiers of \<open>factory/FacBomAbstract.cpp\<close> (64-bit words),
    the vector operator of the batch program.
  \<^item> \<open>CRS_Batch\<close>: \<open>batches/simcrs.cpp\<close>: option tables, \<open>readConfiguration\<close> and \<open>main\<close>.
  \<^item> \<open>CRS_Program\<close>: the specification of the batch program without services and contexts, and
    the exact texts that it prints.
  \<^item> \<open>CRS_Offers\<close>: the faults that can stop the batch program, and the run up to its offers.
  \<^item> \<open>CRS_Accounts\<close>: the same ledger beside the batch program.
  \<^item> \<open>CRS_Usage\<close>: the other components with a watch (\<open>watched\<close>): calling a service on which the
    ledger shows no pointer is a fault.
  \<^item> \<open>CRS_TestSuite\<close>: \<open>src/test/simcrs/CRSTestSuite.cpp\<close>: the simulation helper, the two test
    cases and the suite, with the checks that Boost.Test records (\<open>BOOST_CHECK\<close> goes on after a
    failure), the destructors of the local objects on every way out of the block, and the
    global fixture that sets the report up.
  \<^item> \<open>CRS_Suite\<close>: the specification of the test program without services and contexts.
  \<^item> \<open>CRS_Custody\<close>: the ledger beside the test program, which goes on after an exception, and
    the watched components in it.

  \<^bold>\<open>What the theorems show.\<close>

  \<^item> Sales: the loops send exactly the script of the solution and report the last answer
    only; an ill-formed solution stops after the requests before the fault; the answer means
    that all was sold exactly when there is at most one request; selling by class identity and
    by segment key agree. Cancellations and availability: order, answers, where an exception
    leaves the list.
  \<^item> Loading: each method runs its plan; ownership of StdAir decides what is built and
    cloned; an exception leaves a prefix of the plan done.
  \<^item> Life of a service: a constructor adds one complete context or leaks one; the destructor
    gives back every reference and keeps the context; cleaning the factories returns, frees
    everything, and must come after the destructors.
  \<^item> Process: in every reachable state live services can serve, nothing is one step from a
    fault, the handlers of a live service are kept alive by its own context, and the contexts
    hold exactly the references of the live services when no constructor has failed; contexts
    are bounded by the history; a clean end is always reachable; and a history, with the
    replies of its calls and the order in which pointers are given up, is possible exactly when
    the machine without memory allows it.
  \<^item> Shared pointers: after any history, failed constructors included, SimCRS owes exactly the
    pointers that are in its contexts, none is given up that is not held, a clean-up gives all
    of them back, and the batch program leaks none, also when it ends with an exception. Neither
    a history nor the batch program ever calls a service whose last pointer has been given up.
  \<^item> Public methods: the exception on a NULL context (of all but \<open>buildComplementaryLinks\<close>,
    which has no guard and an empty body), the refinement of their specification, values of the
    declared types, no fault with a complete context as long as the other components do not
    abort.
  \<^item> Batch program: refinement of a program without memory, exact texts and values of the
    options, where the inventory comes from, no reference left at the end, and that only the
    offers of the fare quote can stop it, as long as the other components do not abort.
  \<^item> Test suite: refinement of a program without memory, so that nothing that the first test
    case leaves behind changes the second; the ledger shows what the contexts hold whatever the
    simulation does, and no dead service is called; a test case that passes has recorded seven
    checks and a sale; and without an offer it runs into \<open>front()\<close> of an empty list after the
    failed check.

  \<^bold>\<open>Conventions and limits.\<close>

  Assertions are compiled in (they stop the run). Memory is unbounded and \<open>new\<close> takes the next
  address that was never used; that an allocator may reuse the address of a dead object is not
  modelled, so a dangling pointer is always detected. Loops over lists are structural
  recursions: nothing runs on fuel and all definitions are total. A party size is an integer;
  its conversion to a number of seats is a parameter. The chronometer, the log and the texts of
  StdAir's structures are parameters too, and the messages are modelled as texts. The external
  components can not reach into the memory of SimCRS; pointers that they hold on each other are
  theirs. No exception of \<open>main\<close> is caught: C++ leaves open whether the stack is then unwound,
  and the model unwinds it. The copies of shared pointers are those that the sources ask for
  (assignments, parameters by value, results of getters); where C++ lets the result of a
  function be built in place, it is.

  Not modelled: the components outside the repository, Boost.Program_options (a parameter of
  the batch program), an implementation of C++ that does not unwind the stack when nothing
  catches an exception, what Boost.Test does when a test case is aborted by an assertion or an
  undefined step (the model stops there), the configuration header \<open>config_msvc.h\<close>, which no
  source includes, and the build files. What is left of the headers is declarations of what is
  modelled, and documentation.
\<close>

end
